theory Spec2Isabelle
  imports Main "HOL-Library.Word"
begin

unbundle bit_operations_syntax

section \<open>Client context (src/emu/core/client_ctx.go)\<close>

text \<open>
  The fixed-size byte arrays of the source are single machine words here: a \<open>MACKey\<close> is
  \<open>[6]byte\<close>, an \<open>Ipv4Key\<close> is \<open>[4]byte\<close> and an \<open>Ipv6Key\<close> is \<open>[16]byte\<close>, each read
  big-endian. The zero value of a Go array is the word \<open>0\<close>, and \<open>IsZero\<close> is equality
  with it.
\<close>

type_synonym byte = "8 word"
type_synonym MACKey = "48 word"
type_synonym Ipv4Key = "32 word"
type_synonym Ipv6Key = "128 word"

definition IsZero :: "Ipv6Key \<Rightarrow> bool" where
  "IsZero k = (k = 0)"

text \<open>\<open>CClientDg\<close>: a default gateway binding, written by the ARP and ND plugins.\<close>

record CClientDg =
  IpdgResolved :: bool
  IpdgMac :: MACKey

text \<open>\<open>CClientIpv6Nd\<close>: what was learned from a router advertisement.\<close>

record CClientIpv6Nd =
  RouterMTU :: "16 word"
  DgMac :: MACKey
  PrefixIpv6 :: Ipv6Key
  PrefixLen :: byte
  IPv6 :: Ipv6Key

text \<open>
  The messages \<open>PluginCtx.BroadcastMsg\<close> hands to the plugins, with their two value
  arguments. The plugin framework is a collaborator of this code, so a broadcast is recorded
  in the client's \<open>events\<close> log, newest last.
\<close>

datatype PluginMsg =
  MSG_DG_MAC_RESOLVED byte
  | MSG_UPDATE_DGIPV4_ADDR Ipv4Key Ipv4Key

text \<open>
  \<open>CClient\<close>. A nil pointer is \<open>None\<close>. The timer object is reduced to whether it is
  running: \<open>StartTicks\<close> sets it, the timer firing and \<open>Stop\<close> clear it.
\<close>

record CClient =
  Ipv4 :: Ipv4Key
  Maskv4 :: Ipv4Key
  DgIpv4 :: Ipv4Key
  Mac :: MACKey
  MTU :: "16 word"
  DGW :: "CClientDg option"
  Ipv6Router :: "CClientIpv6Nd option"
  Ipv6DGW :: "CClientDg option"
  Ipv6 :: Ipv6Key
  DgIpv6 :: Ipv6Key
  Dhcpv6 :: Ipv6Key
  Ipv6ForceDGW :: bool
  Ipv6ForcedgMac :: MACKey
  ForceDGW :: bool
  Ipv4ForcedgMac :: MACKey
  timer_running :: bool
  bitMask :: byte
  resolveAttempts :: byte
  maxResolveAttempts :: byte
  events :: "PluginMsg list"

text \<open>\<open>NewClient\<close>: every field the constructor does not set has Go's zero value.\<close>

definition NewClient :: "MACKey \<Rightarrow> Ipv4Key \<Rightarrow> Ipv6Key \<Rightarrow> Ipv4Key \<Rightarrow> CClient" where
  "NewClient mac ipv4 ipv6 dgIpv4 =
     \<lparr> Ipv4 = ipv4, Maskv4 = 0xffffffff, DgIpv4 = dgIpv4, Mac = mac, MTU = 1500,
       DGW = None, Ipv6Router = None, Ipv6DGW = None, Ipv6 = ipv6, DgIpv6 = 0, Dhcpv6 = 0,
       Ipv6ForceDGW = False, Ipv6ForcedgMac = 0, ForceDGW = False, Ipv4ForcedgMac = 0,
       timer_running = False, bitMask = 0, resolveAttempts = 0, maxResolveAttempts = 0,
       events = [] \<rparr>"

subsection \<open>Gateway resolution queries\<close>

text \<open>
  \<open>ResolveIPv4DGMac\<close> and \<open>ResolveIPv6DGMac\<close>: the named results \<open>mac, ok\<close> start at
  their zero values and are returned as they stand when no branch is taken.
\<close>

definition ResolveIPv4DGMac :: "CClient \<Rightarrow> MACKey \<times> bool" where
  "ResolveIPv4DGMac c =
     (if ForceDGW c then (Ipv4ForcedgMac c, True)
      else case DGW c of
             Some d \<Rightarrow> if IpdgResolved d then (IpdgMac d, True) else (0, False)
           | None \<Rightarrow> (0, False))"

definition ResolveIPv6DGMac :: "CClient \<Rightarrow> MACKey \<times> bool" where
  "ResolveIPv6DGMac c =
     (if Ipv6ForceDGW c then (Ipv6ForcedgMac c, True)
      else if (case Ipv6DGW c of Some d \<Rightarrow> IpdgResolved d | None \<Rightarrow> False)
           then (case Ipv6DGW c of Some d \<Rightarrow> (IpdgMac d, True) | None \<Rightarrow> (0, False))
      else case Ipv6Router c of
             Some r \<Rightarrow> (DgMac r, True)
           | None \<Rightarrow> (0, False))"

text \<open>
  \<open>ResolveDGIPv6\<close>: two independent \<open>if\<close> statements, the second overwriting what the
  first assigned.
\<close>

definition ResolveDGIPv6 :: "CClient \<Rightarrow> Ipv6Key \<times> bool" where
  "ResolveDGIPv6 c =
     (let r1 = (if \<not> IsZero (DgIpv6 c) then (DgIpv6 c, True) else (0, False))
      in case Ipv6Router c of
           Some r \<Rightarrow> (IPv6 r, True)
         | None \<Rightarrow> r1)"

text \<open>\<open>ResolveDGv6\<close>: address and MAC together.\<close>

definition ResolveDGv6 :: "CClient \<Rightarrow> Ipv6Key \<times> MACKey \<times> bool" where
  "ResolveDGv6 c =
     (if \<not> IsZero (DgIpv6 c) then
        (if Ipv6ForceDGW c then (DgIpv6 c, Ipv6ForcedgMac c, True)
         else case Ipv6DGW c of
                Some d \<Rightarrow> if IpdgResolved d then (DgIpv6 c, IpdgMac d, True) else (0, 0, False)
              | None \<Rightarrow> (0, 0, False))
      else case Ipv6Router c of
             Some r \<Rightarrow> (IPv6 r, DgMac r, True)
           | None \<Rightarrow> (0, 0, False))"

subsection \<open>The resolution state machine\<close>

text \<open>
  \<open>OnEvent\<close>, the timer callback. The constants \<open>RESOLVED_IPV4_DG_MAC\<close> and
  \<open>RESOLVED_IPV6_DG_MAC\<close> are declared in another file of the package; they are the parameters
  \<open>r4\<close> and \<open>r6\<close>. \<open>mask_has m r\<close> is the test \<open>(m & r) == r\<close>; both "already
  resolved" tests read the bit mask as it is on entry.
\<close>

definition mask_has :: "byte \<Rightarrow> byte \<Rightarrow> bool" where
  "mask_has m r = (m AND r = r)"

definition OnEvent :: "byte \<Rightarrow> byte \<Rightarrow> CClient \<Rightarrow> CClient" where
  "OnEvent r4 r6 c =
     (let ipv4DGResolved0 = mask_has (bitMask c) r4;
          ipv6DGResolved0 = mask_has (bitMask c) r6;
          ipv4DGResolved = (if \<not> ipv4DGResolved0 then snd (ResolveIPv4DGMac c) else ipv4DGResolved0);
          new4 = (\<not> ipv4DGResolved0 \<and> ipv4DGResolved);
          c1 = (if new4 then c\<lparr>bitMask := bitMask c OR r4\<rparr> else c);
          ipv6DGResolved = (if \<not> ipv6DGResolved0 then snd (ResolveIPv6DGMac c1) else ipv6DGResolved0);
          new6 = (\<not> ipv6DGResolved0 \<and> ipv6DGResolved);
          c2 = (if new6 then c1\<lparr>bitMask := bitMask c1 OR r6\<rparr> else c1);
          broadcast = (new4 \<or> new6);
          c3 = (if broadcast then c2\<lparr>events := events c2 @ [MSG_DG_MAC_RESOLVED (bitMask c2)]\<rparr> else c2)
      in if resolveAttempts c3 < maxResolveAttempts c3 \<and> (\<not> ipv4DGResolved \<or> \<not> ipv6DGResolved)
         then c3\<lparr>resolveAttempts := resolveAttempts c3 + 1, timer_running := True\<rparr>
         else c3)"

text \<open>\<open>AttemptResolve\<close>: sets the limit and runs the callback once, directly.\<close>

definition AttemptResolve :: "byte \<Rightarrow> byte \<Rightarrow> CClient \<Rightarrow> CClient" where
  "AttemptResolve r4 r6 c = OnEvent r4 r6 (c\<lparr>maxResolveAttempts := 5\<rparr>)"


text \<open>
  One timer tick: a single-shot timer that is running fires, which stops it and runs the
  callback; a timer that is not running does nothing.
\<close>

definition tick :: "byte \<Rightarrow> byte \<Rightarrow> CClient \<Rightarrow> CClient" where
  "tick r4 r6 c = (if timer_running c then OnEvent r4 r6 (c\<lparr>timer_running := False\<rparr>) else c)"

text \<open>\<open>OnRemove\<close>: stops a running timer (the plugins' teardown is outside this model).\<close>

definition OnRemove :: "CClient \<Rightarrow> CClient" where
  "OnRemove c = (if timer_running c then c\<lparr>timer_running := False\<rparr> else c)"

text \<open>\<open>UpdateDgIPv4\<close>.\<close>

definition UpdateDgIPv4 :: "Ipv4Key \<Rightarrow> CClient \<Rightarrow> CClient" where
  "UpdateDgIPv4 NewDgIpv4 c =
     c\<lparr>DgIpv4 := NewDgIpv4, events := events c @ [MSG_UPDATE_DGIPV4_ADDR (DgIpv4 c) NewDgIpv4]\<rparr>"

text \<open>
  What can happen to a client over its life: the operations above, and the writes of the
  protocol plugins to the gateway bindings and the router snapshot.
\<close>

datatype ClientOp =
  OpAttemptResolve
  | OpTick
  | OpRemove
  | OpUpdateDgIPv4 Ipv4Key
  | OpSetDGW "CClientDg option"
  | OpSetIpv6DGW "CClientDg option"
  | OpSetIpv6Router "CClientIpv6Nd option"

fun client_op :: "byte \<Rightarrow> byte \<Rightarrow> ClientOp \<Rightarrow> CClient \<Rightarrow> CClient" where
  "client_op r4 r6 OpAttemptResolve c = AttemptResolve r4 r6 c"
| "client_op r4 r6 OpTick c = tick r4 r6 c"
| "client_op r4 r6 OpRemove c = OnRemove c"
| "client_op r4 r6 (OpUpdateDgIPv4 a) c = UpdateDgIPv4 a c"
| "client_op r4 r6 (OpSetDGW d) c = c\<lparr>DGW := d\<rparr>"
| "client_op r4 r6 (OpSetIpv6DGW d) c = c\<lparr>Ipv6DGW := d\<rparr>"
| "client_op r4 r6 (OpSetIpv6Router r) c = c\<lparr>Ipv6Router := r\<rparr>"

fun client_ops :: "byte \<Rightarrow> byte \<Rightarrow> ClientOp list \<Rightarrow> CClient \<Rightarrow> CClient" where
  "client_ops r4 r6 [] c = c"
| "client_ops r4 r6 (x # xs) c = client_ops r4 r6 xs (client_op r4 r6 x c)"

subsection \<open>Clients without a gateway, and example clients\<close>

text \<open>
  \<open>pending v4 r c\<close>: the family (IPv4 when \<open>v4\<close>, else IPv6) whose bit is \<open>r\<close> is not
  marked resolved in \<open>c\<close> and has no gateway of any kind: not forced, no resolved
  binding and, for IPv6, no router snapshot.
\<close>

definition unres4 :: "CClient \<Rightarrow> bool" where
  "unres4 c = (\<not> ForceDGW c \<and> (case DGW c of Some d \<Rightarrow> \<not> IpdgResolved d | None \<Rightarrow> True))"

definition unres6 :: "CClient \<Rightarrow> bool" where
  "unres6 c = (\<not> Ipv6ForceDGW c \<and> (case Ipv6DGW c of Some d \<Rightarrow> \<not> IpdgResolved d | None \<Rightarrow> True)
     \<and> Ipv6Router c = None)"

definition pending :: "bool \<Rightarrow> byte \<Rightarrow> CClient \<Rightarrow> bool" where
  "pending v4 r c = (\<not> mask_has (bitMask c) r \<and> (if v4 then unres4 c else unres6 c))"

definition retrying :: "bool \<Rightarrow> byte \<Rightarrow> byte \<Rightarrow> CClient \<Rightarrow> bool" where
  "retrying v4 r k c =
     (pending v4 r c \<and> resolveAttempts c = k \<and> maxResolveAttempts c = 5 \<and> timer_running c)"

definition retry_inv :: "CClient \<Rightarrow> bool" where
  "retry_inv c = (resolveAttempts c \<le> maxResolveAttempts c \<and> maxResolveAttempts c \<le> 5)"

definition client_plain :: CClient where
  "client_plain = NewClient 0x020000000001 0x10000001 0 0x10000002"

definition client_forced :: CClient where
  "client_forced = client_plain\<lparr>ForceDGW := True, Ipv4ForcedgMac := 0x0000AA000004,
     Ipv6ForceDGW := True, Ipv6ForcedgMac := 0x0000AA000006\<rparr>"

definition client_bound :: CClient where
  "client_bound = client_plain\<lparr>
     DGW := Some \<lparr>IpdgResolved = True, IpdgMac = 0x0000BB000004\<rparr>,
     Ipv6DGW := Some \<lparr>IpdgResolved = True, IpdgMac = 0x0000BB000006\<rparr>\<rparr>"

definition router_ex :: CClientIpv6Nd where
  "router_ex = \<lparr>RouterMTU = 1500, DgMac = 0x0000CC000006,
     PrefixIpv6 = 0x20010db8000000000000000000000000, PrefixLen = 64,
     IPv6 = 0xfe800000000000000000000000000001\<rparr>"

definition client_router :: CClient where
  "client_router = client_plain\<lparr>
     DGW := Some \<lparr>IpdgResolved = False, IpdgMac = 0\<rparr>,
     Ipv6DGW := Some \<lparr>IpdgResolved = False, IpdgMac = 0\<rparr>,
     Ipv6Router := Some router_ex\<rparr>"

text \<open>A static IPv6 gateway that is the advertising router itself, with a forced MAC.\<close>

definition client_both_same :: CClient where
  "client_both_same = client_plain\<lparr>DgIpv6 := 0xfe800000000000000000000000000001,
     Ipv6ForceDGW := True, Ipv6ForcedgMac := 0x0000AA000006, Ipv6Router := Some router_ex\<rparr>"

text \<open>A static IPv6 gateway other than the advertising router.\<close>

definition client_both_other :: CClient where
  "client_both_other = client_plain\<lparr>DgIpv6 := 0xfe800000000000000000000000000002,
     Ipv6ForceDGW := True, Ipv6ForcedgMac := 0x0000AA000006, Ipv6Router := Some router_ex\<rparr>"


text \<open>
  Progress of a family without a gateway after a start: at stage \<open>n \<le> 5\<close> the timer is
  armed with \<open>n\<close> retries counted; past stage 5 the retries are used up and the timer is
  stopped.
\<close>

definition at_stage :: "bool \<Rightarrow> byte \<Rightarrow> nat \<Rightarrow> CClient \<Rightarrow> bool" where
  "at_stage v4 r n c =
     (if n \<le> 5 then retrying v4 r (of_nat n) c
      else pending v4 r c \<and> resolveAttempts c = 5 \<and> maxResolveAttempts c = 5
           \<and> \<not> timer_running c)"

section \<open>Frame transport over ZMQ (the veth interface)\<close>

subsection \<open>Go runtime panics, slices and big-endian integers\<close>

text \<open>
  The ways the modelled code can stop: a slice expression out of range, an array index
  out of range, and the explicit \<open>panic(" mbuf should be contiguous  ")\<close> of \<open>FlushTx\<close>.
\<close>

datatype panic = SliceBounds | IndexOutOfRange | NotContiguous

text \<open>
  The slice expressions \<open>p[a:b]\<close> and \<open>p[a:]\<close>, with the indices already converted to
  \<open>int\<close>. They are checked against the length of \<open>p\<close>. Go checks \<open>p[a:b]\<close> against the
  capacity, which this model does not have: where the model panics with \<open>SliceBounds\<close>
  and \<open>a \<le> b\<close>, the program either panics or reads bytes that lie behind the frame in
  the same buffer.
\<close>

definition slice :: "byte list \<Rightarrow> nat \<Rightarrow> nat \<Rightarrow> panic + byte list" where
  "slice p a b = (if a \<le> b \<and> b \<le> length p then Inr (take (b - a) (drop a p)) else Inl SliceBounds)"

definition slice_from :: "byte list \<Rightarrow> nat \<Rightarrow> panic + byte list" where
  "slice_from p a = (if a \<le> length p then Inr (drop a p) else Inl SliceBounds)"

text \<open>
  \<open>binary.BigEndian\<close>. \<open>Uint16\<close> and \<open>Uint32\<close> are only ever applied to a slice of
  exactly two or four bytes that a slice expression has just produced, so their bounds
  check cannot fail; on any other list they are 0 here.
\<close>

definition Uint16 :: "byte list \<Rightarrow> 16 word" where
  "Uint16 b = (case b of [b0, b1] \<Rightarrow> ucast b1 OR push_bit 8 (ucast b0) | _ \<Rightarrow> 0)"

definition Uint32 :: "byte list \<Rightarrow> 32 word" where
  "Uint32 b =
     (case b of
        [b0, b1, b2, b3] \<Rightarrow>
          ucast b3 OR push_bit 8 (ucast b2) OR push_bit 16 (ucast b1) OR push_bit 24 (ucast b0)
      | _ \<Rightarrow> 0)"

definition PutUint32 :: "32 word \<Rightarrow> byte list" where
  "PutUint32 v = [ucast (drop_bit 24 v), ucast (drop_bit 16 v), ucast (drop_bit 8 v), ucast v]"

subsection \<open>Packet buffers\<close>

text \<open>
  Modelled from the spec: the packet buffer \<open>Mbuf\<close> and its pool, which are declared in
  another file of the package. The specification's buffer-pool collaborator offers
  allocate, duplicate to contiguous and release, and a buffer offers append, a view of its
  data, its length and whether it is contiguous. A buffer is its virtual port and its
  chain of segments; it is contiguous when the chain has at most one segment. Allocation
  gives a buffer for every length, and releasing a buffer (\<open>FreeMbuf\<close>) leaves no trace.
\<close>

record Mbuf =
  port :: "16 word"
  segs :: "byte list list"

definition PktLen :: "Mbuf \<Rightarrow> 32 word" where
  "PktLen m = of_nat (length (concat (segs m)))"

definition VPort :: "Mbuf \<Rightarrow> 16 word" where
  "VPort m = port m"

definition IsContiguous :: "Mbuf \<Rightarrow> bool" where
  "IsContiguous m = (length (segs m) \<le> 1)"

definition GetData :: "Mbuf \<Rightarrow> byte list" where
  "GetData m = (case segs m of [] \<Rightarrow> [] | s # _ \<Rightarrow> s)"

definition GetContiguous :: "Mbuf \<Rightarrow> Mbuf" where
  "GetContiguous m = m\<lparr>segs := [concat (segs m)]\<rparr>"

text \<open>\<open>MPool.Alloc\<close>, \<open>SetVPort\<close> and \<open>Append\<close> in a row, as every caller uses them.\<close>

definition new_mbuf :: "16 word \<Rightarrow> byte list \<Rightarrow> Mbuf" where
  "new_mbuf vport b = \<lparr>port = vport, segs = [b]\<rparr>"

subsection \<open>Tunnel keys\<close>

text \<open>
  Modelled from the spec: \<open>CTunnelData\<close>, which is declared in another file of the
  package. It holds the virtual port and the tag slots; the tag stack has a fixed capacity
  of 2, so \<open>Vlans\<close> is a list of length 2 (\<open>[2]uint32\<close>), each slot a whole 4-byte tag
  (tag type and tag control) or 0 when empty.

  The key type \<open>CTunnelKey\<close> with its methods \<open>Set\<close> and \<open>Get\<close> is declared there too.
  The functions below take the two methods as parameters \<open>KSet\<close> and \<open>KGet\<close> and are
  polymorphic in the key type.
\<close>

record CTunnelData =
  Vport :: "16 word"
  Vlans :: "32 word list"

definition EthernetTypeDot1Q :: "16 word" where
  "EthernetTypeDot1Q = 0x8100"

text \<open>
  The scanning loop of \<open>getTunnelKeyFromSlice\<close>. \<open>offset\<close> is a \<open>uint16\<close>. The slice
  expression is evaluated first, then the tag is stored at \<open>vlanIndex\<close>, where an index
  outside the array panics.
\<close>

function getLoop ::
  "byte list \<Rightarrow> 16 word \<Rightarrow> nat \<Rightarrow> 32 word list \<Rightarrow> 16 word \<Rightarrow> panic + 32 word list" where
  "getLoop p nextHdr vlanIndex vlans offset =
     (if nextHdr = EthernetTypeDot1Q then
        (case slice p (unat (offset - 2)) (unat (offset + 2)) of
           Inl e \<Rightarrow> Inl e
         | Inr b \<Rightarrow>
             if vlanIndex < length vlans then
               (case slice p (unat (offset + 2)) (unat (offset + 4)) of
                  Inl e \<Rightarrow> Inl e
                | Inr b2 \<Rightarrow>
                    getLoop p (Uint16 b2) (vlanIndex + 1)
                      (vlans[vlanIndex := Uint32 b AND 0xffffffff]) (offset + 4))
             else Inl IndexOutOfRange)
      else Inr vlans)"
  by pat_completeness auto
termination
  by (relation "measure (\<lambda>(p, nextHdr, vlanIndex, vlans, offset). length vlans - vlanIndex)") auto

text \<open>\<open>getTunnelKeyFromSlice\<close>; \<open>ethHeader.GetNextProtocol()\<close> reads bytes 12 and 13.\<close>

definition getTunnelKeyFromSlice ::
  "(CTunnelData \<Rightarrow> 'k) \<Rightarrow> byte list \<Rightarrow> 16 word \<Rightarrow> panic + 'k" where
  "getTunnelKeyFromSlice KSet p port' =
     (case slice p 0 14 of
        Inl e \<Rightarrow> Inl e
      | Inr ethHeader \<Rightarrow>
          (case getLoop p (Uint16 (drop 12 ethHeader)) 0 [0, 0] 14 of
             Inl e \<Rightarrow> Inl e
           | Inr vlans \<Rightarrow> Inr (KSet \<lparr>Vport = port', Vlans = vlans\<rparr>)))"

text \<open>
  The scanning loop of \<open>setTunnelKeyToSlice\<close>. It has no counter, and its \<open>uint16\<close>
  offset wraps around, so on a frame of 64 KiB that carries the tag type at every fourth
  byte pair it does not return: the result \<open>None\<close>.
\<close>

partial_function (option) skipLoop :: "byte list \<Rightarrow> 16 word \<Rightarrow> 16 word \<Rightarrow> (panic + 16 word) option" where
  "skipLoop p nextHdr offset =
     (if nextHdr = EthernetTypeDot1Q then
        (case slice p (unat (offset + 2)) (unat (offset + 4)) of
           Inl e \<Rightarrow> Some (Inl e)
         | Inr b2 \<Rightarrow> skipLoop p (Uint16 b2) (offset + 4))
      else Some (Inr offset))"

text \<open>The tag bytes written for the non-zero slots, in slot order.\<close>

definition vlan_bytes :: "32 word list \<Rightarrow> byte list" where
  "vlan_bytes vlans = concat (map PutUint32 (filter (\<lambda>val. val \<noteq> 0) vlans))"

definition setTunnelKeyToSlice ::
  "('k \<Rightarrow> CTunnelData) \<Rightarrow> 'k \<Rightarrow> byte list \<Rightarrow> (panic + byte list) option" where
  "setTunnelKeyToSlice KGet ctk p =
     (let d = KGet ctk in
      case slice p 0 14 of
        Inl e \<Rightarrow> Some (Inl e)
      | Inr ethHeader \<Rightarrow>
          (case skipLoop p (Uint16 (drop 12 ethHeader)) 14 of
             None \<Rightarrow> None
           | Some (Inl e) \<Rightarrow> Some (Inl e)
           | Some (Inr offset) \<Rightarrow>
               (case slice_from p (unat (offset - 2)) of
                  Inl e \<Rightarrow> Some (Inl e)
                | Inr afterVlan \<Rightarrow>
                    (case slice p 0 12 of
                       Inl e \<Rightarrow> Some (Inl e)
                     | Inr mac \<Rightarrow> Some (Inr (mac @ vlan_bytes (Vlans d) @ afterVlan))))))"





text \<open>Example frames: 12 address bytes, then tags, the IPv4 type and two payload bytes.\<close>

definition frame_addrs :: "byte list" where
  "frame_addrs = [0xff, 0xff, 0xff, 0xff, 0xff, 0xff, 0x02, 0x00, 0x00, 0x00, 0x00, 0x01]"



definition frame_three_tags :: "byte list" where
  "frame_three_tags =
     frame_addrs @ [0x81, 0x00, 0x00, 0x01] @ [0x81, 0x00, 0x00, 0x02]
       @ [0x81, 0x00, 0x00, 0x03] @ [0x08, 0x00, 0x45, 0x00]"


subsection \<open>The interface state\<close>

text \<open>
  \<open>VethStats\<close> is declared in another file of the package; these are the counters the code
  touches, 64 bits wide as the conversion in \<open>TxBytes += uint64(pktlen)\<close> shows.
\<close>

record VethStats =
  TxPkts :: "64 word"
  TxBytes :: "64 word"
  TxBatch :: "64 word"
  TxDropNotResolve :: "64 word"
  RxPkts :: "64 word"
  RxBytes :: "64 word"
  RxBatch :: "64 word"
  RxParseErr :: "64 word"

text \<open>
  \<open>VethIFZmq\<close>. What the code hands to its collaborators is kept in logs, oldest first:
  \<open>tx_wire\<close> the messages given to \<open>txSocket.SendBytes\<close>, \<open>tctx_rx\<close> the packets given
  to the engine's \<open>HandleRxPacket\<close>, \<open>cb_rx\<close> those given to the callback's, and
  \<open>monitor\<close> the K12 dumps (flagged when on the receive side). \<open>xlat\<close> is the state of
  the process-wide tunnel key translation tables, which another file of the package keeps.
\<close>

record 't VethIFZmq =
  rxPort :: "16 word"
  txPort :: "16 word"
  vec :: "Mbuf list"
  txVecSize :: "32 word"
  stats :: VethStats
  K12Monitor :: bool
  proxyMode :: bool
  buf :: "byte list"
  tx_wire :: "byte list list"
  tctx_rx :: "Mbuf list"
  cb_rx :: "Mbuf list"
  monitor :: "(bool \<times> Mbuf) list"
  xlat :: 't

definition ZMQ_PACKET_HEADER_MAGIC :: "32 word" where
  "ZMQ_PACKET_HEADER_MAGIC = 0xBEEF"

definition ZMQ_TX_PKT_BURST_SIZE :: nat where
  "ZMQ_TX_PKT_BURST_SIZE = 64"

definition ZMQ_TX_MAX_BUFFER_SIZE :: "32 word" where
  "ZMQ_TX_MAX_BUFFER_SIZE = 32 * 1024"

text \<open>\<open>Create\<close>, without the sockets: the ports, the empty batch and the zero counters.\<close>

definition Create :: "16 word \<Rightarrow> bool \<Rightarrow> 't \<Rightarrow> 't VethIFZmq" where
  "Create port' proxy x =
     \<lparr> rxPort = (if proxy then port' + 1 else port'),
       txPort = (if proxy then port' else port' + 1),
       vec = [], txVecSize = 0,
       stats = \<lparr>TxPkts = 0, TxBytes = 0, TxBatch = 0, TxDropNotResolve = 0,
                 RxPkts = 0, RxBytes = 0, RxBatch = 0, RxParseErr = 0\<rparr>,
       K12Monitor = False, proxyMode = proxy, buf = replicate (32 * 1024) 0,
       tx_wire = [], tctx_rx = [], cb_rx = [], monitor = [], xlat = x \<rparr>"

subsection \<open>Sending\<close>

text \<open>The 4-byte packet header \<open>FlushTx\<close> writes before each frame.\<close>

definition pkt_header :: "Mbuf \<Rightarrow> 32 word" where
  "pkt_header m =
     push_bit 24 0xAA + push_bit 16 (ucast (VPort m AND 0xff)) + (PktLen m AND 0xffff)"

text \<open>
  The loop of \<open>FlushTx\<close> over the batch: it panics at the first frame that is not
  contiguous, and otherwise appends header and data to the buffer.
\<close>

fun flush_loop ::
  "bool \<Rightarrow> Mbuf list \<Rightarrow> byte list \<Rightarrow> (bool \<times> Mbuf) list \<Rightarrow> panic + byte list \<times> (bool \<times> Mbuf) list" where
  "flush_loop k [] b mon = Inr (b, mon)"
| "flush_loop k (m # ms) b mon =
     (if \<not> IsContiguous m then Inl NotContiguous
      else flush_loop k ms (b @ PutUint32 (pkt_header m) @ GetData m)
             (if k then mon @ [(False, m)] else mon))"

definition FlushTx :: "'t VethIFZmq \<Rightarrow> panic + 't VethIFZmq" where
  "FlushTx z =
     (if length (vec z) = 0 then Inr z
      else
        let header = push_bit 16 (0xBEEF :: 32 word) + of_nat (length (vec z)) in
        case flush_loop (K12Monitor z) (vec z) (PutUint32 header) (monitor z) of
          Inl e \<Rightarrow> Inl e
        | Inr (b, mon) \<Rightarrow>
            Inr (z\<lparr>buf := b, stats := (stats z)\<lparr>TxBatch := TxBatch (stats z) + 1\<rparr>,
                   monitor := mon, vec := [], txVecSize := 0, tx_wire := tx_wire z @ [b]\<rparr>))"

definition Send :: "Mbuf \<Rightarrow> 't VethIFZmq \<Rightarrow> panic + 't VethIFZmq" where
  "Send m z =
     (let pktlen = PktLen m;
          z1 = z\<lparr>stats := (stats z)\<lparr>TxPkts := TxPkts (stats z) + 1,
                                     TxBytes := TxBytes (stats z) + ucast pktlen\<rparr>\<rparr>
      in case (if ZMQ_TX_MAX_BUFFER_SIZE \<le> txVecSize z1 + pktlen then FlushTx z1 else Inr z1) of
           Inl e \<Rightarrow> Inl e
         | Inr z2 \<Rightarrow>
             let z3 = z2\<lparr>vec := vec z2 @ [if \<not> IsContiguous m then GetContiguous m else m],
                         txVecSize := txVecSize z2 + pktlen\<rparr>
             in if length (vec z3) = ZMQ_TX_PKT_BURST_SIZE then FlushTx z3 else Inr z3)"

text \<open>
  Modelled from the spec: the two \<open>copy\<close> calls of the unicast path of \<open>SendBuffer\<close>
  write into the data of a buffer of the pool. They put the gateway's and the client's MAC
  over the first 12 bytes of the frame, as far as the frame reaches.
\<close>

definition mac_bytes :: "MACKey \<Rightarrow> byte list" where
  "mac_bytes k = map (\<lambda>i. ucast (drop_bit (8 * (5 - i)) k)) [0 ..< 6]"

definition copy_at :: "byte list \<Rightarrow> nat \<Rightarrow> byte list \<Rightarrow> byte list" where
  "copy_at p i src = take (length p) (take i p @ src @ drop (i + length src) p)"

text \<open>
  \<open>SendBuffer\<close>. The namespace type is declared in another file of the package; the
  result of the client's \<open>Ns.GetVport()\<close> is the parameter \<open>vport\<close>.
\<close>

definition SendBuffer ::
  "bool \<Rightarrow> 16 word \<Rightarrow> CClient \<Rightarrow> byte list \<Rightarrow> bool \<Rightarrow> 't VethIFZmq \<Rightarrow> panic + 't VethIFZmq" where
  "SendBuffer unicast vport c b ipv6 z =
     (if unicast then
        (case (if ipv6 then ResolveIPv6DGMac c else ResolveIPv4DGMac c) of
           (dgMac, ok) \<Rightarrow>
             if \<not> ok then
               Inr (z\<lparr>stats := (stats z)\<lparr>TxDropNotResolve := TxDropNotResolve (stats z) + 1\<rparr>\<rparr>)
             else
               Send (new_mbuf vport (copy_at (copy_at b 6 (mac_bytes (Mac c))) 0 (mac_bytes dgMac))) z)
      else Send (new_mbuf vport b) z)"

subsection \<open>Receiving\<close>

definition OnRx :: "Mbuf \<Rightarrow> 't VethIFZmq \<Rightarrow> 't VethIFZmq" where
  "OnRx m z =
     (let z1 = z\<lparr>stats := (stats z)\<lparr>RxPkts := RxPkts (stats z) + 1,
                                     RxBytes := RxBytes (stats z) + ucast (PktLen m)\<rparr>\<rparr>;
          z2 = (if K12Monitor z1 then z1\<lparr>monitor := monitor z1 @ [(True, m)]\<rparr> else z1)
      in if proxyMode z2 then z2\<lparr>cb_rx := cb_rx z2 @ [m]\<rparr>
         else z2\<lparr>tctx_rx := tctx_rx z2 @ [m]\<rparr>)"

text \<open>
  What the rewrite path of \<open>OnRxStream\<close> takes from its surroundings: whether the
  environment variable \<open>USE_VYOS\<close> is \<open>yes\<close>, the port constant \<open>ToVyosPort\<close> as a byte,
  the key type's \<open>Set\<close> and \<open>Get\<close>, \<open>GetCTunnelKeyForVyos\<close> (which may change the
  translation tables) and the lookup in \<open>VyosToTrexCTunnelKeyTable\<close>.
\<close>

record ('k, 't) VyosEnv =
  useVyos :: bool
  ToVyosPort :: byte
  KeySet :: "CTunnelData \<Rightarrow> 'k"
  KeyGet :: "'k \<Rightarrow> CTunnelData"
  GetCTunnelKeyForVyos :: "'t \<Rightarrow> 'k \<Rightarrow> 'k \<times> 't"
  VyosToTrexCTunnelKeyTable :: "'t \<Rightarrow> 'k \<Rightarrow> 'k option"

text \<open>The client value \<open>CClient{Ns: &ns}\<close>: every field modelled here is zero.\<close>

definition skeleton_client :: CClient where
  "skeleton_client =
     \<lparr> Ipv4 = 0, Maskv4 = 0, DgIpv4 = 0, Mac = 0, MTU = 0,
       DGW = None, Ipv6Router = None, Ipv6DGW = None, Ipv6 = 0, DgIpv6 = 0, Dhcpv6 = 0,
       Ipv6ForceDGW = False, Ipv6ForcedgMac = 0, ForceDGW = False, Ipv4ForcedgMac = 0,
       timer_running = False, bitMask = 0, resolveAttempts = 0, maxResolveAttempts = 0,
       events = [] \<rparr>"

text \<open>
  Modelled from the spec: the namespace's \<open>GetVport()\<close>, which is the virtual port held
  in the namespace's tunnel key. With it, the rewrite step for one received packet: no
  result (\<open>None\<close>) stands for the scan of \<open>setTunnelKeyToSlice\<close> not returning.
\<close>

definition rewrite_and_send ::
  "('k, 't) VyosEnv \<Rightarrow> 'k \<Rightarrow> byte list \<Rightarrow> 't VethIFZmq \<Rightarrow> (panic + 't VethIFZmq) option" where
  "rewrite_and_send env key sl z =
     (case setTunnelKeyToSlice (KeyGet env) key sl of
        None \<Rightarrow> None
      | Some (Inl e) \<Rightarrow> Some (Inl e)
      | Some (Inr newSlice) \<Rightarrow>
          Some (SendBuffer False (Vport (KeyGet env key)) skeleton_client newSlice False z))"

definition vyos_forward ::
  "('k, 't) VyosEnv \<Rightarrow> byte \<Rightarrow> byte list \<Rightarrow> 't VethIFZmq \<Rightarrow> (panic + 't VethIFZmq) option" where
  "vyos_forward env vport sl z =
     (case getTunnelKeyFromSlice (KeySet env) sl (ucast vport) of
        Inl e \<Rightarrow> Some (Inl e)
      | Inr ctk \<Rightarrow>
          if vport \<noteq> ToVyosPort env then
            (case GetCTunnelKeyForVyos env (xlat z) ctk of
               (vyosKey, x) \<Rightarrow> rewrite_and_send env vyosKey sl (z\<lparr>xlat := x\<rparr>))
          else
            (case VyosToTrexCTunnelKeyTable env (xlat z) ctk of
               None \<Rightarrow> Some (Inr z)
             | Some trexKey \<Rightarrow> rewrite_and_send env trexKey sl z))"

definition parse_err :: "'t VethIFZmq \<Rightarrow> 't VethIFZmq" where
  "parse_err z = z\<lparr>stats := (stats z)\<lparr>RxParseErr := RxParseErr (stats z) + 1\<rparr>\<rparr>"

text \<open>
  The packet loop of \<open>OnRxStream\<close>, with the number of packets still to read. \<open>ofs\<close> is
  the \<open>uint16\<close> offset \<open>of\<close>: \<open>of+4\<close> and \<open>of+4+pktLen\<close> are computed in 16 bits and only
  then widened for the comparison with \<open>blen\<close> or used as slice bounds.
\<close>

fun rxLoop ::
  "('k, 't) VyosEnv \<Rightarrow> byte list \<Rightarrow> nat \<Rightarrow> 16 word \<Rightarrow> 't VethIFZmq \<Rightarrow> (panic + 't VethIFZmq) option" where
  "rxLoop env stream 0 ofs z = Some (Inr z)"
| "rxLoop env stream (Suc n) ofs z =
     (let blen = (of_nat (length stream) :: 32 word) in
      if blen < ucast (ofs + 4) then Some (Inr (parse_err z))
      else
        case slice stream (unat ofs) (unat (ofs + 4)) of
          Inl e \<Rightarrow> Some (Inl e)
        | Inr hb \<Rightarrow>
            let header = Uint32 hb in
            if header AND 0xff000000 \<noteq> 0xAA000000 then Some (Inr (parse_err z))
            else
              let vport = (ucast (drop_bit 16 (header AND 0x00ff0000)) :: byte);
                  pktLen = (ucast (header AND 0x0000ffff) :: 16 word)
              in
                if blen < ucast (ofs + 4 + pktLen) then Some (Inr (parse_err z))
                else
                  case slice stream (unat (ofs + 4)) (unat (ofs + 4 + pktLen)) of
                    Inl e \<Rightarrow> Some (Inl e)
                  | Inr sl \<Rightarrow>
                      (case (let z1 = OnRx (new_mbuf (ucast vport) sl) z
                             in if useVyos env then vyos_forward env vport sl z1
                                else Some (Inr z1)) of
                         None \<Rightarrow> None
                       | Some (Inl e) \<Rightarrow> Some (Inl e)
                       | Some (Inr z2) \<Rightarrow> rxLoop env stream n (ofs + 4 + pktLen) z2))"

definition OnRxStream ::
  "('k, 't) VyosEnv \<Rightarrow> byte list \<Rightarrow> 't VethIFZmq \<Rightarrow> (panic + 't VethIFZmq) option" where
  "OnRxStream env stream z =
     (let z0 = z\<lparr>stats := (stats z)\<lparr>RxBatch := RxBatch (stats z) + 1\<rparr>\<rparr>;
          blen = (of_nat (length stream) :: 32 word)
      in if blen < 4 then Some (Inr (parse_err z0))
         else
           case slice stream 0 4 of
             Inl e \<Rightarrow> Some (Inl e)
           | Inr hb \<Rightarrow>
               let header = Uint32 hb in
               if drop_bit 16 (header AND 0xffff0000) \<noteq> ZMQ_PACKET_HEADER_MAGIC
               then Some (Inr (parse_err z0))
               else rxLoop env stream (unat (header AND 0xffff)) 4 z0)"

subsection \<open>The wire format, and sequences of sends\<close>

text \<open>
  The wire format as the specification gives it: a batch header with the magic in the
  upper and the packet count in the lower 16 bits, then for each frame its packet header
  and its bytes.
\<close>

definition wire_frame :: "Mbuf \<Rightarrow> byte list" where
  "wire_frame m = PutUint32 (pkt_header m) @ GetData m"

definition wire_message :: "Mbuf list \<Rightarrow> byte list" where
  "wire_message ms =
     PutUint32 (push_bit 16 0xBEEF + of_nat (length ms)) @ concat (map wire_frame ms)"

text \<open>The frame as \<open>Send\<close> stores it in the batch.\<close>

definition as_contiguous :: "Mbuf \<Rightarrow> Mbuf" where
  "as_contiguous m = (if \<not> IsContiguous m then GetContiguous m else m)"

text \<open>The state after a flush of a batch of contiguous frames.\<close>

definition flushed :: "'t VethIFZmq \<Rightarrow> 't VethIFZmq" where
  "flushed z =
     (if vec z = [] then z
      else z\<lparr>buf := wire_message (vec z),
             stats := (stats z)\<lparr>TxBatch := TxBatch (stats z) + 1\<rparr>,
             monitor := monitor z @ (if K12Monitor z then map (Pair False) (vec z) else []),
             vec := [], txVecSize := 0,
             tx_wire := tx_wire z @ [wire_message (vec z)]\<rparr>)"

text \<open>The operations of the sending side, and a sequence of them; a panic ends it.\<close>

datatype TxOp =
  OpSend Mbuf
  | OpFlushTx
  | OpSendBuffer bool "16 word" CClient "byte list" bool

fun tx_op :: "TxOp \<Rightarrow> 't VethIFZmq \<Rightarrow> panic + 't VethIFZmq" where
  "tx_op (OpSend m) z = Send m z"
| "tx_op OpFlushTx z = FlushTx z"
| "tx_op (OpSendBuffer unicast vport c b ipv6) z = SendBuffer unicast vport c b ipv6 z"

fun tx_ops :: "TxOp list \<Rightarrow> 't VethIFZmq \<Rightarrow> panic + 't VethIFZmq" where
  "tx_ops [] z = Inr z"
| "tx_ops (x # xs) z = (case tx_op x z of Inl e \<Rightarrow> Inl e | Inr z' \<Rightarrow> tx_ops xs z')"

text \<open>
  A batch being filled with frames of 100 bytes: \<open>n\<close> contiguous frames are pending and
  the payload counter stands at \<open>100 * n\<close>.
\<close>

definition filling :: "'t VethIFZmq \<Rightarrow> nat \<Rightarrow> bool" where
  "filling z n =
     (list_all IsContiguous (vec z) \<and> length (vec z) = n \<and> txVecSize z = of_nat (100 * n))"

text \<open>Example frames of 100 bytes: one contiguous, one in two segments.\<close>

definition frame100 :: Mbuf where
  "frame100 = \<lparr>port = 3, segs = [replicate 100 0]\<rparr>"


text \<open>What a run of sending operations put on the wire, and what it left pending.\<close>

definition sent_messages :: "panic + 't VethIFZmq \<Rightarrow> byte list list option" where
  "sent_messages r = (case r of Inl e \<Rightarrow> None | Inr z \<Rightarrow> Some (tx_wire z))"

definition pending_frames :: "panic + 't VethIFZmq \<Rightarrow> Mbuf list option" where
  "pending_frames r = (case r of Inl e \<Rightarrow> None | Inr z \<Rightarrow> Some (vec z))"

subsection \<open>The inbound message as the specification reads it\<close>








definition msg_long_length :: "byte list" where
  "msg_long_length = [0xBE, 0xEF, 0x00, 0x01] @ [0xAA, 0x00, 0xFF, 0xFF]"

definition env_plain :: "(CTunnelData, unit) VyosEnv" where
  "env_plain = \<lparr>useVyos = False, ToVyosPort = 0, KeySet = (\<lambda>d. d), KeyGet = (\<lambda>d. d),
     GetCTunnelKeyForVyos = (\<lambda>x k. (k, x)), VyosToTrexCTunnelKeyTable = (\<lambda>x k. None)\<rparr>"





text \<open>Example batches: one frame pending, and 63 frames pending; and a large frame.\<close>

definition batch_one :: "unit VethIFZmq" where
  "batch_one = (Create 4510 False ())\<lparr>vec := [frame100], txVecSize := 100\<rparr>"

definition batch_63 :: "unit VethIFZmq" where
  "batch_63 = (Create 4510 False ())\<lparr>vec := replicate 63 frame100, txVecSize := 6300\<rparr>"

definition frame_big :: Mbuf where
  "frame_big = \<lparr>port = 3, segs = [replicate 32700 0]\<rparr>"

text \<open>Two interface states that agree on everything the receive side reads or reports.\<close>

definition rx_same :: "'t VethIFZmq \<Rightarrow> 't VethIFZmq \<Rightarrow> bool" where
  "rx_same z z' =
     (tctx_rx z' = tctx_rx z \<and> cb_rx z' = cb_rx z \<and> proxyMode z' = proxyMode z
      \<and> RxParseErr (stats z') = RxParseErr (stats z) \<and> RxBatch (stats z') = RxBatch (stats z)
      \<and> RxPkts (stats z') = RxPkts (stats z) \<and> RxBytes (stats z') = RxBytes (stats z))"

section \<open>Properties of the client context\<close>

subsection \<open>Gateway MAC precedence\<close>

text \<open>
  Claim C1. Gateway MAC resolution follows the precedence forced, then resolved binding,
  then (IPv6 only) router snapshot, for every client state. IPv4: a set force flag gives
  the forced MAC, resolved; otherwise a binding that exists and is resolved gives its MAC;
  otherwise the zero MAC, unresolved. IPv6: the same two levels, then the router
  snapshot's MAC when a snapshot exists, and with none of the three the zero MAC,
  unresolved.
\<close>

theorem gateway_mac_precedence:
  "(ForceDGW c \<longrightarrow> ResolveIPv4DGMac c = (Ipv4ForcedgMac c, True))
   \<and> (\<forall>d. \<not> ForceDGW c \<and> DGW c = Some d \<and> IpdgResolved d
          \<longrightarrow> ResolveIPv4DGMac c = (IpdgMac d, True))
   \<and> (\<not> ForceDGW c \<and> (DGW c = None \<or> (\<exists>d. DGW c = Some d \<and> \<not> IpdgResolved d))
          \<longrightarrow> ResolveIPv4DGMac c = (0, False))
   \<and> (Ipv6ForceDGW c \<longrightarrow> ResolveIPv6DGMac c = (Ipv6ForcedgMac c, True))
   \<and> (\<forall>d. \<not> Ipv6ForceDGW c \<and> Ipv6DGW c = Some d \<and> IpdgResolved d
          \<longrightarrow> ResolveIPv6DGMac c = (IpdgMac d, True))
   \<and> (\<forall>r. \<not> Ipv6ForceDGW c \<and> (Ipv6DGW c = None \<or> (\<exists>d. Ipv6DGW c = Some d \<and> \<not> IpdgResolved d))
            \<and> Ipv6Router c = Some r
          \<longrightarrow> ResolveIPv6DGMac c = (DgMac r, True))
   \<and> (\<not> Ipv6ForceDGW c \<and> (Ipv6DGW c = None \<or> (\<exists>d. Ipv6DGW c = Some d \<and> \<not> IpdgResolved d))
            \<and> Ipv6Router c = None
          \<longrightarrow> ResolveIPv6DGMac c = (0, False))"
  by (auto simp: ResolveIPv4DGMac_def ResolveIPv6DGMac_def)

theorem gateway_mac_precedence_witness:
  "ResolveIPv4DGMac client_forced = (0x0000AA000004, True)
   \<and> ResolveIPv4DGMac client_bound = (0x0000BB000004, True)
   \<and> ResolveIPv4DGMac client_router = (0, False)
   \<and> ResolveIPv4DGMac client_plain = (0, False)
   \<and> ResolveIPv6DGMac client_forced = (0x0000AA000006, True)
   \<and> ResolveIPv6DGMac client_bound = (0x0000BB000006, True)
   \<and> ResolveIPv6DGMac client_router = (0x0000CC000006, True)
   \<and> ResolveIPv6DGMac client_plain = (0, False)"
  using gateway_mac_precedence [of client_forced] gateway_mac_precedence [of client_bound]
    gateway_mac_precedence [of client_router] gateway_mac_precedence [of client_plain]
  by (simp add: client_forced_def client_bound_def client_router_def client_plain_def
      router_ex_def NewClient_def)

subsection \<open>The two IPv6 gateway address queries\<close>

lemma ResolveDGIPv6_router: "Ipv6Router c = Some r \<Longrightarrow> ResolveDGIPv6 c = (IPv6 r, True)"
  by (simp add: ResolveDGIPv6_def Let_def)

lemma ResolveDGv6_static:
  "\<not> IsZero (DgIpv6 c) \<Longrightarrow>
   ResolveDGv6 c =
     (if Ipv6ForceDGW c \<or> (\<exists>d. Ipv6DGW c = Some d \<and> IpdgResolved d)
      then (DgIpv6 c, fst (ResolveIPv6DGMac c), True) else (0, 0, False))"
  by (auto simp: ResolveDGv6_def ResolveIPv6DGMac_def split: option.splits)

text \<open>
  Claim C10, as stated, fails: the two queries need not disagree for a client that has
  both a static gateway address and a router snapshot. Where the static address is the
  advertising router's own and the MAC is forced, both return that address, resolved.
\<close>

theorem gateway_ipv6_queries_agree_counterexample:
  "Ipv6Router client_both_same = Some router_ex
   \<and> \<not> IsZero (DgIpv6 client_both_same)
   \<and> fst (ResolveDGIPv6 client_both_same) = fst (ResolveDGv6 client_both_same)
   \<and> snd (ResolveDGIPv6 client_both_same) = snd (snd (ResolveDGv6 client_both_same))"
  by (simp add: client_both_same_def client_plain_def router_ex_def NewClient_def
      ResolveDGIPv6_def ResolveDGv6_def IsZero_def)

text \<open>
  Claim C10, amended. \<open>ResolveDGIPv6\<close> gives the router snapshot priority: whenever a
  snapshot is present it returns the snapshot's address, also when a non-zero static
  gateway address is configured. \<open>ResolveDGv6\<close> takes the static address when it is
  non-zero and never the snapshot's: it returns the static address when the gateway MAC
  is forced or bound and resolved, and nothing otherwise. For a client that has both, the
  two queries return the same address and the same resolved flag exactly when the static
  address equals the snapshot's and the gateway MAC is forced or resolved; in every other
  case they disagree.
\<close>

theorem gateway_ipv6_queries:
  "(\<forall>r. Ipv6Router c = Some r \<longrightarrow> ResolveDGIPv6 c = (IPv6 r, True))
   \<and> (\<not> IsZero (DgIpv6 c) \<longrightarrow>
        ResolveDGv6 c =
          (if Ipv6ForceDGW c \<or> (\<exists>d. Ipv6DGW c = Some d \<and> IpdgResolved d)
           then (DgIpv6 c, fst (ResolveIPv6DGMac c), True) else (0, 0, False)))
   \<and> (\<forall>r. Ipv6Router c = Some r \<and> \<not> IsZero (DgIpv6 c) \<longrightarrow>
          ((fst (ResolveDGIPv6 c) = fst (ResolveDGv6 c)
             \<and> snd (ResolveDGIPv6 c) = snd (snd (ResolveDGv6 c)))
           \<longleftrightarrow> (IPv6 r = DgIpv6 c
                \<and> (Ipv6ForceDGW c \<or> (\<exists>d. Ipv6DGW c = Some d \<and> IpdgResolved d)))))"
proof (intro conjI allI impI)
  fix r assume "Ipv6Router c = Some r"
  then show "ResolveDGIPv6 c = (IPv6 r, True)" by (rule ResolveDGIPv6_router)
next
  assume "\<not> IsZero (DgIpv6 c)"
  then show "ResolveDGv6 c =
          (if Ipv6ForceDGW c \<or> (\<exists>d. Ipv6DGW c = Some d \<and> IpdgResolved d)
           then (DgIpv6 c, fst (ResolveIPv6DGMac c), True) else (0, 0, False))"
    by (rule ResolveDGv6_static)
next
  fix r assume a: "Ipv6Router c = Some r \<and> \<not> IsZero (DgIpv6 c)"
  show "(fst (ResolveDGIPv6 c) = fst (ResolveDGv6 c)
             \<and> snd (ResolveDGIPv6 c) = snd (snd (ResolveDGv6 c)))
           \<longleftrightarrow> (IPv6 r = DgIpv6 c
                \<and> (Ipv6ForceDGW c \<or> (\<exists>d. Ipv6DGW c = Some d \<and> IpdgResolved d)))"
    using a by (auto simp: ResolveDGIPv6_router ResolveDGv6_static)
qed

theorem gateway_ipv6_queries_witness:
  "ResolveDGIPv6 client_both_other = (0xfe800000000000000000000000000001, True)
   \<and> ResolveDGv6 client_both_other = (0xfe800000000000000000000000000002, 0x0000AA000006, True)
   \<and> fst (ResolveDGIPv6 client_both_other) \<noteq> fst (ResolveDGv6 client_both_other)"
proof -
  have r: "Ipv6Router client_both_other = Some router_ex"
    by (simp add: client_both_other_def)
  have z: "\<not> IsZero (DgIpv6 client_both_other)"
    by (simp add: client_both_other_def IsZero_def)
  have f: "Ipv6ForceDGW client_both_other"
    by (simp add: client_both_other_def)
  have m: "ResolveIPv6DGMac client_both_other = (0x0000AA000006, True)"
    by (simp add: client_both_other_def ResolveIPv6DGMac_def)
  have d: "DgIpv6 client_both_other = 0xfe800000000000000000000000000002"
    by (simp add: client_both_other_def)
  have i: "IPv6 router_ex = 0xfe800000000000000000000000000001"
    by (simp add: router_ex_def)
  show ?thesis
    using gateway_ipv6_queries [of client_both_other] r z f m d i by auto
qed

subsection \<open>The resolved bit mask only grows\<close>

lemma and_or_absorb1: "(x::byte) AND (x OR y) = x"
  by (simp add: word_ao_absorbs)

lemma and_or_absorb2: "(x::byte) AND ((x OR y) OR z) = x"
  by (metis and_or_absorb1 word_bw_assocs(2))

lemma mask_has_or_disjoint:
  assumes "r AND s = 0"
  shows "mask_has (m OR s) r = mask_has m r"
proof -
  have "(m OR s) AND r = (m AND r) OR (s AND r)" by (rule word_ao_dist)
  also have "s AND r = 0" using assms by (simp add: word_bw_comms)
  finally show ?thesis by (simp add: mask_has_def)
qed

lemma OnEvent_bitMask:
  "bitMask (OnEvent r4 r6 c) = bitMask c \<or> bitMask (OnEvent r4 r6 c) = bitMask c OR r4
   \<or> bitMask (OnEvent r4 r6 c) = bitMask c OR r6
   \<or> bitMask (OnEvent r4 r6 c) = (bitMask c OR r4) OR r6"
  by (simp add: OnEvent_def Let_def)

lemma OnEvent_bitMask_mono: "bitMask c AND bitMask (OnEvent r4 r6 c) = bitMask c"
  using OnEvent_bitMask [of r4 r6 c] by (auto simp: and_or_absorb1 and_or_absorb2)

lemma and_sub_trans:
  fixes a b d :: byte
  assumes "a AND b = a" "b AND d = b"
  shows "a AND d = a"
proof -
  have "a AND d = (a AND b) AND d" using assms by simp
  also have "\<dots> = a AND (b AND d)" by (simp add: word_bw_assocs)
  also have "\<dots> = a" using assms by simp
  finally show ?thesis .
qed

lemma client_op_bitMask_mono: "bitMask c AND bitMask (client_op r4 r6 x c) = bitMask c"
  by (cases x) (simp_all add: AttemptResolve_def tick_def OnRemove_def UpdateDgIPv4_def
      OnEvent_bitMask_mono [of "c\<lparr>maxResolveAttempts := 5\<rparr>", simplified]
      OnEvent_bitMask_mono [of "c\<lparr>timer_running := False\<rparr>", simplified])

lemma client_ops_bitMask_mono: "bitMask c AND bitMask (client_ops r4 r6 xs c) = bitMask c"
proof (induction xs arbitrary: c)
  case Nil
  show ?case by simp
next
  case (Cons x xs)
  show ?case
    using and_sub_trans [OF client_op_bitMask_mono [of c r4 r6 x] Cons.IH [of "client_op r4 r6 x c"]]
    by simp
qed

lemma client_ops_append:
  "client_ops r4 r6 (xs @ ys) c = client_ops r4 r6 ys (client_ops r4 r6 xs c)"
  by (induction xs arbitrary: c) simp_all

lemma and_eq_imp_bit:
  fixes a b :: byte
  assumes "a AND b = a" "bit a n"
  shows "bit b n"
proof -
  have "bit (a AND b) n" using assms by simp
  then show ?thesis by (simp add: bit_and_iff)
qed

lemma and_eq_imp_mask_has:
  fixes a b :: byte
  assumes "a AND b = a" "mask_has a r"
  shows "mask_has b r"
proof -
  have "b AND r = b AND (a AND r)" using assms(2) by (simp add: mask_has_def)
  also have "\<dots> = (a AND b) AND r" by (simp add: ac_simps)
  also have "\<dots> = r" using assms by (simp add: mask_has_def)
  finally show ?thesis by (simp add: mask_has_def)
qed

text \<open>
  Claim C4. The resolved bit mask is monotonically non-decreasing over the client's
  lifetime. For every client state reached by operations \<open>pre\<close> and every further sequence
  \<open>post\<close> of operations (ticks, starts, removal, gateway address updates and the plugins'
  writes to the bindings and the router snapshot, in any order), every bit set before is
  set after, so the mask after tick n+1 is a superset of the mask after tick n; and a
  family whose bit \<open>r\<close> is set stays marked resolved.
\<close>

theorem bitMask_monotone:
  "(\<forall>n. bit (bitMask (client_ops r4 r6 pre c)) n
          \<longrightarrow> bit (bitMask (client_ops r4 r6 (pre @ post) c)) n)
   \<and> (\<forall>r. mask_has (bitMask (client_ops r4 r6 pre c)) r
          \<longrightarrow> mask_has (bitMask (client_ops r4 r6 (pre @ post) c)) r)"
proof -
  have m: "bitMask (client_ops r4 r6 pre c) AND bitMask (client_ops r4 r6 (pre @ post) c)
           = bitMask (client_ops r4 r6 pre c)"
    by (simp add: client_ops_append client_ops_bitMask_mono)
  show ?thesis
    using and_eq_imp_bit [OF m] and_eq_imp_mask_has [OF m] by blast
qed

theorem bitMask_monotone_witness:
  "bit (bitMask (client_ops 1 2 [OpAttemptResolve] client_forced)) 0
   \<and> bit (bitMask (client_ops 1 2
        ([OpAttemptResolve] @ [OpSetDGW None, OpTick, OpRemove, OpAttemptResolve, OpTick])
        client_forced)) 0
   \<and> mask_has (bitMask (client_ops 1 2 [OpAttemptResolve] client_forced)) 2
   \<and> mask_has (bitMask (client_ops 1 2
        ([OpAttemptResolve] @ [OpSetDGW None, OpTick, OpRemove, OpAttemptResolve, OpTick])
        client_forced)) 2"
proof -
  have b: "bitMask (client_ops 1 2 [OpAttemptResolve] client_forced) = 3"
    by (simp add: client_forced_def client_plain_def NewClient_def AttemptResolve_def
        OnEvent_def Let_def mask_has_def ResolveIPv4DGMac_def ResolveIPv6DGMac_def)
  have h0: "bit (bitMask (client_ops 1 2 [OpAttemptResolve] client_forced)) 0"
    unfolding b by simp
  have h2: "mask_has (bitMask (client_ops 1 2 [OpAttemptResolve] client_forced)) 2"
    unfolding b by (simp add: mask_has_def)
  show ?thesis
    using bitMask_monotone [of 1 2 "[OpAttemptResolve]" client_forced
        "[OpSetDGW None, OpTick, OpRemove, OpAttemptResolve, OpTick]"] h0 h2
    by blast
qed

subsection \<open>Bounded retries\<close>

lemma OnEvent_max: "maxResolveAttempts (OnEvent r4 r6 c) = maxResolveAttempts c"
  by (simp add: OnEvent_def Let_def)

lemma OnEvent_attempts_le:
  "resolveAttempts c \<le> maxResolveAttempts c \<Longrightarrow>
   resolveAttempts (OnEvent r4 r6 c) \<le> maxResolveAttempts c"
  by (simp add: OnEvent_def Let_def inc_le)

lemma client_op_retry_inv: "retry_inv c \<Longrightarrow> retry_inv (client_op r4 r6 x c)"
  unfolding retry_inv_def
  by (cases x) (auto simp: AttemptResolve_def tick_def OnRemove_def UpdateDgIPv4_def OnEvent_max
      intro!: OnEvent_attempts_le [where c = "c\<lparr>maxResolveAttempts := 5\<rparr>", simplified]
              OnEvent_attempts_le [where c = "c\<lparr>timer_running := False\<rparr>", simplified])

lemma client_ops_retry_inv: "retry_inv c \<Longrightarrow> retry_inv (client_ops r4 r6 xs c)"
  by (induction xs arbitrary: c) (simp_all add: client_op_retry_inv)

lemma unres4_Resolve: "unres4 c \<Longrightarrow> ResolveIPv4DGMac c = (0, False)"
  by (auto simp: unres4_def ResolveIPv4DGMac_def split: option.splits)

lemma unres6_Resolve: "unres6 c \<Longrightarrow> ResolveIPv6DGMac c = (0, False)"
  by (auto simp: unres6_def ResolveIPv6DGMac_def split: option.splits)

lemma Resolve4_frame [simp]:
  "ResolveIPv4DGMac (c\<lparr>bitMask := b\<rparr>) = ResolveIPv4DGMac c"
  "ResolveIPv4DGMac (c\<lparr>timer_running := t\<rparr>) = ResolveIPv4DGMac c"
  "ResolveIPv4DGMac (c\<lparr>maxResolveAttempts := m\<rparr>) = ResolveIPv4DGMac c"
  "ResolveIPv4DGMac (c\<lparr>resolveAttempts := a\<rparr>) = ResolveIPv4DGMac c"
  by (simp_all add: ResolveIPv4DGMac_def)

lemma Resolve6_frame [simp]:
  "ResolveIPv6DGMac (c\<lparr>bitMask := b\<rparr>) = ResolveIPv6DGMac c"
  "ResolveIPv6DGMac (c\<lparr>timer_running := t\<rparr>) = ResolveIPv6DGMac c"
  "ResolveIPv6DGMac (c\<lparr>maxResolveAttempts := m\<rparr>) = ResolveIPv6DGMac c"
  "ResolveIPv6DGMac (c\<lparr>resolveAttempts := a\<rparr>) = ResolveIPv6DGMac c"
  by (simp_all add: ResolveIPv6DGMac_def)

lemma pending_frame [simp]:
  "pending v4 r (c\<lparr>timer_running := t\<rparr>) = pending v4 r c"
  "pending v4 r (c\<lparr>maxResolveAttempts := m\<rparr>) = pending v4 r c"
  by (simp_all add: pending_def unres4_def unres6_def)

text \<open>One run of the callback while a family has no gateway.\<close>

lemma OnEvent_pending:
  assumes "r4 AND r6 = 0" "pending v4 (if v4 then r4 else r6) c"
  shows "pending v4 (if v4 then r4 else r6) (OnEvent r4 r6 c)"
    and "resolveAttempts (OnEvent r4 r6 c) =
           (if resolveAttempts c < maxResolveAttempts c then resolveAttempts c + 1
            else resolveAttempts c)"
    and "timer_running (OnEvent r4 r6 c) =
           (if resolveAttempts c < maxResolveAttempts c then True else timer_running c)"
    and "maxResolveAttempts (OnEvent r4 r6 c) = maxResolveAttempts c"
proof -
  have d: "r6 AND r4 = 0" using assms(1) by (simp add: word_bw_comms)
  show "pending v4 (if v4 then r4 else r6) (OnEvent r4 r6 c)"
    using assms(2)
    by (cases v4)
       (auto simp: pending_def OnEvent_def Let_def unres4_Resolve unres6_Resolve
          mask_has_or_disjoint [OF assms(1)] mask_has_or_disjoint [OF d] unres4_def unres6_def)
  show "resolveAttempts (OnEvent r4 r6 c) =
           (if resolveAttempts c < maxResolveAttempts c then resolveAttempts c + 1
            else resolveAttempts c)"
    using assms(2)
    by (cases v4) (auto simp: pending_def OnEvent_def Let_def unres4_Resolve unres6_Resolve)
  show "timer_running (OnEvent r4 r6 c) =
           (if resolveAttempts c < maxResolveAttempts c then True else timer_running c)"
    using assms(2)
    by (cases v4) (auto simp: pending_def OnEvent_def Let_def unres4_Resolve unres6_Resolve)
  show "maxResolveAttempts (OnEvent r4 r6 c) = maxResolveAttempts c"
    by (rule OnEvent_max)
qed

lemma tick_retrying:
  assumes "r4 AND r6 = 0" "retrying v4 (if v4 then r4 else r6) k c" "k < 5"
  shows "retrying v4 (if v4 then r4 else r6) (k + 1) (tick r4 r6 c)"
  using OnEvent_pending [OF assms(1), of v4 "c\<lparr>timer_running := False\<rparr>"] assms(2,3)
  by (simp add: retrying_def tick_def)

lemma tick_exhausted:
  assumes "r4 AND r6 = 0" "retrying v4 (if v4 then r4 else r6) 5 c"
  shows "pending v4 (if v4 then r4 else r6) (tick r4 r6 c)
         \<and> resolveAttempts (tick r4 r6 c) = 5 \<and> \<not> timer_running (tick r4 r6 c)"
  using OnEvent_pending [OF assms(1), of v4 "c\<lparr>timer_running := False\<rparr>"] assms(2)
  by (simp add: retrying_def tick_def)

lemma small_nat_cases: "n < 5 \<Longrightarrow> n \<in> {0, 1, 2, 3, 4::nat}"
  by auto

lemma tick_stage:
  assumes d: "r4 AND r6 = 0" and s: "at_stage v4 (if v4 then r4 else r6) n c"
  shows "at_stage v4 (if v4 then r4 else r6) (Suc n) (tick r4 r6 c)"
proof -
  consider "n < 5" | "n = 5" | "5 < n" by arith
  then show ?thesis
  proof cases
    case 1
    then have r: "retrying v4 (if v4 then r4 else r6) (of_nat n) c"
      using s by (simp add: at_stage_def)
    have l: "(of_nat n :: byte) < 5"
      using small_nat_cases [OF 1] by auto
    show ?thesis
      using tick_retrying [OF d r l] 1 by (simp add: at_stage_def add.commute)
  next
    case 2
    then have r: "retrying v4 (if v4 then r4 else r6) 5 c"
      using s by (simp add: at_stage_def)
    show ?thesis
      using tick_exhausted [OF d r] r 2
      by (simp add: at_stage_def retrying_def tick_def OnEvent_max)
  next
    case 3
    then show ?thesis
      using s by (simp add: at_stage_def tick_def)
  qed
qed

lemma byte_of_unat: "unat (a::byte) = k \<Longrightarrow> a = of_nat k"
  by auto

lemma byte_le_5_cases:
  "(a::byte) \<le> 5 \<Longrightarrow> a = 0 \<or> a = 1 \<or> a = 2 \<or> a = 3 \<or> a = 4 \<or> a = 5"
proof -
  assume "a \<le> 5"
  then have "unat a \<le> 5" by (simp add: word_le_nat_alt)
  then have "unat a = 0 \<or> unat a = 1 \<or> unat a = 2 \<or> unat a = 3 \<or> unat a = 4 \<or> unat a = 5"
    by arith
  then show ?thesis
    using byte_of_unat [of a 0] byte_of_unat [of a 1] byte_of_unat [of a 2]
      byte_of_unat [of a 3] byte_of_unat [of a 4] byte_of_unat [of a 5]
    by (elim disjE) simp_all
qed

lemma start_stage:
  assumes d: "r4 AND r6 = 0" and p: "pending v4 (if v4 then r4 else r6) c"
    and a: "resolveAttempts c \<le> 5"
  shows "\<exists>n\<ge>1. at_stage v4 (if v4 then r4 else r6) n (AttemptResolve r4 r6 c)"
proof -
  let ?c = "c\<lparr>maxResolveAttempts := 5\<rparr>"
  have p': "pending v4 (if v4 then r4 else r6) ?c" using p by simp
  note e = OnEvent_pending [OF d p']
  from byte_le_5_cases [OF a] consider
    "resolveAttempts c = 0" | "resolveAttempts c = 1" | "resolveAttempts c = 2"
    | "resolveAttempts c = 3" | "resolveAttempts c = 4" | "resolveAttempts c = 5" by blast
  then show ?thesis
  proof cases
    case 1 then have "at_stage v4 (if v4 then r4 else r6) 1 (AttemptResolve r4 r6 c)"
      using e by (simp add: at_stage_def retrying_def AttemptResolve_def)
    then show ?thesis by blast
  next
    case 2 then have "at_stage v4 (if v4 then r4 else r6) 2 (AttemptResolve r4 r6 c)"
      using e by (simp add: at_stage_def retrying_def AttemptResolve_def)
    then show ?thesis by (intro exI [of _ 2]) simp
  next
    case 3 then have "at_stage v4 (if v4 then r4 else r6) 3 (AttemptResolve r4 r6 c)"
      using e by (simp add: at_stage_def retrying_def AttemptResolve_def)
    then show ?thesis by (intro exI [of _ 3]) simp
  next
    case 4 then have "at_stage v4 (if v4 then r4 else r6) 4 (AttemptResolve r4 r6 c)"
      using e by (simp add: at_stage_def retrying_def AttemptResolve_def)
    then show ?thesis by (intro exI [of _ 4]) simp
  next
    case 5 then have "at_stage v4 (if v4 then r4 else r6) 5 (AttemptResolve r4 r6 c)"
      using e by (simp add: at_stage_def retrying_def AttemptResolve_def)
    then show ?thesis by (intro exI [of _ 5]) simp
  next
    case 6
    show ?thesis
    proof (cases "timer_running c")
      case True
      then have "at_stage v4 (if v4 then r4 else r6) 5 (AttemptResolve r4 r6 c)"
        using e 6 by (simp add: at_stage_def retrying_def AttemptResolve_def)
      then show ?thesis by (intro exI [of _ 5]) simp
    next
      case False
      then have "at_stage v4 (if v4 then r4 else r6) 6 (AttemptResolve r4 r6 c)"
        using e 6 by (simp add: at_stage_def retrying_def AttemptResolve_def)
      then show ?thesis by (intro exI [of _ 6]) simp
    qed
  qed
qed

lemma exhaust_after_five_ticks:
  assumes d: "r4 AND r6 = 0" and p: "pending v4 (if v4 then r4 else r6) c"
    and a: "resolveAttempts c \<le> 5"
  shows "pending v4 (if v4 then r4 else r6)
           (client_ops r4 r6 [OpAttemptResolve, OpTick, OpTick, OpTick, OpTick, OpTick] c)
         \<and> resolveAttempts
             (client_ops r4 r6 [OpAttemptResolve, OpTick, OpTick, OpTick, OpTick, OpTick] c) = 5
         \<and> \<not> timer_running
             (client_ops r4 r6 [OpAttemptResolve, OpTick, OpTick, OpTick, OpTick, OpTick] c)"
proof -
  let ?r = "if v4 then r4 else r6"
  let ?t = "tick r4 r6"
  obtain n where n: "1 \<le> n" and s0: "at_stage v4 ?r n (AttemptResolve r4 r6 c)"
    using start_stage [OF d p a] by blast
  have s1: "at_stage v4 ?r (Suc n) (?t (AttemptResolve r4 r6 c))"
    by (rule tick_stage [OF d s0])
  have s2: "at_stage v4 ?r (Suc (Suc n)) (?t (?t (AttemptResolve r4 r6 c)))"
    by (rule tick_stage [OF d s1])
  have s3: "at_stage v4 ?r (Suc (Suc (Suc n))) (?t (?t (?t (AttemptResolve r4 r6 c))))"
    by (rule tick_stage [OF d s2])
  have s4: "at_stage v4 ?r (Suc (Suc (Suc (Suc n)))) (?t (?t (?t (?t (AttemptResolve r4 r6 c)))))"
    by (rule tick_stage [OF d s3])
  have s5: "at_stage v4 ?r (Suc (Suc (Suc (Suc (Suc n)))))
              (?t (?t (?t (?t (?t (AttemptResolve r4 r6 c))))))"
    by (rule tick_stage [OF d s4])
  show ?thesis
    using s5 n by (simp add: at_stage_def)
qed



text \<open>
  Claim C5. The retry counter never exceeds the limit of 5: from any state in which the
  counter is within the limit and the limit is at most 5 (a new client has both at 0),
  every sequence of operations keeps it so. And for every client whose retry counter is at
  most 5 and that has neither a forced nor a bound nor (for IPv6) a router-learned gateway
  for one address family, whose bit is unset, after the synchronous start check and 5
  subsequent ticks the retry counter is 5, the timer is not running, and that family's bit
  is still unset. The family bits \<open>r4\<close> and \<open>r6\<close> are disjoint. No operation of the
  model has an error outcome: the source raises none on these paths.
\<close>

theorem retry_counter_bounded_and_exhausted:
  assumes "r4 AND r6 = 0"
  shows
  "(resolveAttempts c \<le> maxResolveAttempts c \<and> maxResolveAttempts c \<le> 5 \<longrightarrow>
      resolveAttempts (client_ops r4 r6 ops c) \<le> maxResolveAttempts (client_ops r4 r6 ops c)
      \<and> maxResolveAttempts (client_ops r4 r6 ops c) \<le> 5)
   \<and> (resolveAttempts c \<le> 5 \<and> \<not> mask_has (bitMask c) r4 \<and> \<not> ForceDGW c
        \<and> (\<forall>d. DGW c = Some d \<longrightarrow> \<not> IpdgResolved d) \<longrightarrow>
      resolveAttempts (client_ops r4 r6 [OpAttemptResolve, OpTick, OpTick, OpTick, OpTick, OpTick] c) = 5
      \<and> \<not> timer_running (client_ops r4 r6 [OpAttemptResolve, OpTick, OpTick, OpTick, OpTick, OpTick] c)
      \<and> \<not> mask_has (bitMask (client_ops r4 r6 [OpAttemptResolve, OpTick, OpTick, OpTick, OpTick, OpTick] c)) r4)
   \<and> (resolveAttempts c \<le> 5 \<and> \<not> mask_has (bitMask c) r6 \<and> \<not> Ipv6ForceDGW c
        \<and> (\<forall>d. Ipv6DGW c = Some d \<longrightarrow> \<not> IpdgResolved d) \<and> Ipv6Router c = None \<longrightarrow>
      resolveAttempts (client_ops r4 r6 [OpAttemptResolve, OpTick, OpTick, OpTick, OpTick, OpTick] c) = 5
      \<and> \<not> timer_running (client_ops r4 r6 [OpAttemptResolve, OpTick, OpTick, OpTick, OpTick, OpTick] c)
      \<and> \<not> mask_has (bitMask (client_ops r4 r6 [OpAttemptResolve, OpTick, OpTick, OpTick, OpTick, OpTick] c)) r6)"
proof (intro conjI impI)
  assume "resolveAttempts c \<le> maxResolveAttempts c \<and> maxResolveAttempts c \<le> 5"
  then have "retry_inv (client_ops r4 r6 ops c)"
    by (intro client_ops_retry_inv) (simp add: retry_inv_def)
  then show "resolveAttempts (client_ops r4 r6 ops c) \<le> maxResolveAttempts (client_ops r4 r6 ops c)"
    and "maxResolveAttempts (client_ops r4 r6 ops c) \<le> 5"
    by (simp_all add: retry_inv_def)
next
  assume a: "resolveAttempts c \<le> 5 \<and> \<not> mask_has (bitMask c) r4 \<and> \<not> ForceDGW c
        \<and> (\<forall>d. DGW c = Some d \<longrightarrow> \<not> IpdgResolved d)"
  then have p: "pending True (if True then r4 else r6) c"
    by (auto simp: pending_def unres4_def split: option.splits)
  from a have z: "resolveAttempts c \<le> 5" by simp
  note e = exhaust_after_five_ticks [OF assms p z]
  from e show "resolveAttempts (client_ops r4 r6 [OpAttemptResolve, OpTick, OpTick, OpTick, OpTick, OpTick] c) = 5"
    by blast
  from e show "\<not> timer_running (client_ops r4 r6 [OpAttemptResolve, OpTick, OpTick, OpTick, OpTick, OpTick] c)"
    by blast
  from e show "\<not> mask_has (bitMask (client_ops r4 r6 [OpAttemptResolve, OpTick, OpTick, OpTick, OpTick, OpTick] c)) r4"
    by (simp add: pending_def)
next
  assume a: "resolveAttempts c \<le> 5 \<and> \<not> mask_has (bitMask c) r6 \<and> \<not> Ipv6ForceDGW c
        \<and> (\<forall>d. Ipv6DGW c = Some d \<longrightarrow> \<not> IpdgResolved d) \<and> Ipv6Router c = None"
  then have p: "pending False (if False then r4 else r6) c"
    by (auto simp: pending_def unres6_def split: option.splits)
  from a have z: "resolveAttempts c \<le> 5" by simp
  note e = exhaust_after_five_ticks [OF assms p z]
  from e show "resolveAttempts (client_ops r4 r6 [OpAttemptResolve, OpTick, OpTick, OpTick, OpTick, OpTick] c) = 5"
    by blast
  from e show "\<not> timer_running (client_ops r4 r6 [OpAttemptResolve, OpTick, OpTick, OpTick, OpTick, OpTick] c)"
    by blast
  from e show "\<not> mask_has (bitMask (client_ops r4 r6 [OpAttemptResolve, OpTick, OpTick, OpTick, OpTick, OpTick] c)) r6"
    by (simp add: pending_def)
qed

theorem retry_counter_bounded_and_exhausted_witness:
  "resolveAttempts (client_ops 1 2
      [OpAttemptResolve, OpTick, OpSetIpv6Router (Some router_ex), OpTick, OpAttemptResolve, OpTick]
      client_plain) \<le> 5
   \<and> resolveAttempts (client_ops 1 2 [OpAttemptResolve, OpTick, OpTick, OpTick, OpTick, OpTick] client_plain) = 5
   \<and> \<not> timer_running (client_ops 1 2 [OpAttemptResolve, OpTick, OpTick, OpTick, OpTick, OpTick] client_plain)
   \<and> \<not> mask_has (bitMask (client_ops 1 2 [OpAttemptResolve, OpTick, OpTick, OpTick, OpTick, OpTick] client_plain)) 1
   \<and> \<not> mask_has (bitMask (client_ops 1 2 [OpAttemptResolve, OpTick, OpTick, OpTick, OpTick, OpTick] client_plain)) 2"
proof -
  have d: "(1::byte) AND 2 = 0" by simp
  have h: "resolveAttempts client_plain \<le> maxResolveAttempts client_plain
           \<and> maxResolveAttempts client_plain \<le> 5"
    by (simp add: client_plain_def NewClient_def)
  have h4: "resolveAttempts client_plain \<le> 5 \<and> \<not> mask_has (bitMask client_plain) 1
            \<and> \<not> ForceDGW client_plain \<and> (\<forall>d. DGW client_plain = Some d \<longrightarrow> \<not> IpdgResolved d)"
    by (simp add: client_plain_def NewClient_def mask_has_def)
  have h6: "resolveAttempts client_plain \<le> 5 \<and> \<not> mask_has (bitMask client_plain) 2
            \<and> \<not> Ipv6ForceDGW client_plain
            \<and> (\<forall>d. Ipv6DGW client_plain = Some d \<longrightarrow> \<not> IpdgResolved d)
            \<and> Ipv6Router client_plain = None"
    by (simp add: client_plain_def NewClient_def mask_has_def)
  show ?thesis
    using retry_counter_bounded_and_exhausted [OF d, of client_plain
        "[OpAttemptResolve, OpTick, OpSetIpv6Router (Some router_ex), OpTick, OpAttemptResolve, OpTick]"]
      h h4 h6
    by force
qed

subsection \<open>The start operation\<close>







section \<open>Properties of the tunnel key codec\<close>

declare getLoop.simps [simp del]

subsection \<open>Big-endian integers\<close>
lemma length_PutUint32 [simp]: "length (PutUint32 v) = 4"
  by (simp add: PutUint32_def)

lemma Uint32_PutUint32 [simp]: "Uint32 (PutUint32 v) = v"
proof (rule bit_word_eqI)
  fix n assume "n < LENGTH(32)"
  then have n: "n < 32" by simp
  consider "n < 8" | "8 \<le> n \<and> n < 16" | "16 \<le> n \<and> n < 24" | "24 \<le> n \<and> n < 32"
    using n by linarith
  then show "bit (Uint32 (PutUint32 v)) n = bit v n"
    by cases (auto simp: Uint32_def PutUint32_def bit_simps)
qed




lemma and_all_ones32 [simp]: "(a :: 32 word) AND 0xffffffff = a"
proof -
  have "(0xffffffff :: 32 word) = - 1" by simp
  then show ?thesis by (simp only: and.right_neutral)
qed



subsection \<open>Encoding, then decoding\<close>















subsection \<open>More tags than slots\<close>

text \<open>
  Claim C3 asks that a frame whose header chain has more stacked tags than the 2 slots be
  rejected or cut at the capacity. The decode loop has no such bound: on a frame with three
  802.1Q tags the third store indexes the tag array at 2 and the program panics.
\<close>

theorem three_tags_index_panic:
  "getTunnelKeyFromSlice KSet frame_three_tags 0 = Inl IndexOutOfRange"
  by (simp add: getTunnelKeyFromSlice_def getLoop.simps slice_def frame_three_tags_def
      frame_addrs_def Uint16_def Uint32_def EthernetTypeDot1Q_def)

section \<open>Properties of the sending side\<close>

subsection \<open>Contiguous batches\<close>

lemma flush_loop_contig:
  "list_all IsContiguous ms \<Longrightarrow>
   flush_loop k ms b mon
     = Inr (b @ concat (map wire_frame ms), mon @ (if k then map (Pair False) ms else []))"
  by (induction ms arbitrary: b mon) (simp_all add: wire_frame_def)

lemma FlushTx_contig:
  "list_all IsContiguous (vec z) \<Longrightarrow> FlushTx z = Inr (flushed z)"
  by (simp add: FlushTx_def flushed_def flush_loop_contig wire_message_def Let_def)

lemma flushed_vec [simp]: "vec (flushed z) = []"
  by (simp add: flushed_def)

lemma IsContiguous_as_contiguous [simp]: "IsContiguous (as_contiguous m)"
  by (simp add: as_contiguous_def IsContiguous_def GetContiguous_def)

lemma Send_contig:
  assumes "list_all IsContiguous (vec z)"
  shows "Send m z =
     Inr (let z1 = z\<lparr>stats := (stats z)\<lparr>TxPkts := TxPkts (stats z) + 1,
                                     TxBytes := TxBytes (stats z) + ucast (PktLen m)\<rparr>\<rparr>;
              z2 = (if ZMQ_TX_MAX_BUFFER_SIZE \<le> txVecSize z1 + PktLen m then flushed z1 else z1);
              z3 = z2\<lparr>vec := vec z2 @ [as_contiguous m], txVecSize := txVecSize z2 + PktLen m\<rparr>
          in if length (vec z3) = ZMQ_TX_PKT_BURST_SIZE then flushed z3 else z3)"
proof -
  let ?z1 = "z\<lparr>stats := (stats z)\<lparr>TxPkts := TxPkts (stats z) + 1,
                                     TxBytes := TxBytes (stats z) + ucast (PktLen m)\<rparr>\<rparr>"
  have c1: "list_all IsContiguous (vec ?z1)" using assms by simp
  let ?z2 = "if ZMQ_TX_MAX_BUFFER_SIZE \<le> txVecSize ?z1 + PktLen m then flushed ?z1 else ?z1"
  have f1: "(if ZMQ_TX_MAX_BUFFER_SIZE \<le> txVecSize ?z1 + PktLen m then FlushTx ?z1 else Inr ?z1) = Inr ?z2"
    using FlushTx_contig [OF c1] by simp
  have c2: "list_all IsContiguous (vec ?z2)" using c1 by simp
  let ?z3 = "?z2\<lparr>vec := vec ?z2 @ [as_contiguous m], txVecSize := txVecSize ?z2 + PktLen m\<rparr>"
  have c3: "list_all IsContiguous (vec ?z3)" using c2 by simp
  have f3: "FlushTx ?z3 = Inr (flushed ?z3)" by (rule FlushTx_contig [OF c3])
  show ?thesis
    unfolding Send_def Let_def f1 using f3 by (simp add: as_contiguous_def Let_def)
qed





lemma tx_ops_append:
  "tx_ops (xs @ ys) z = (case tx_ops xs z of Inl e \<Rightarrow> Inl e | Inr z' \<Rightarrow> tx_ops ys z')"
  by (induction xs arbitrary: z) (simp_all split: sum.splits)



subsection \<open>Batching ceilings\<close>

lemma of_nat_small_not_trigger:
  assumes "k < 32768"
  shows "\<not> ZMQ_TX_MAX_BUFFER_SIZE \<le> (of_nat k :: 32 word)"
proof -
  have "unat (of_nat k :: 32 word) = k"
    using assms by (simp add: unat_of_nat)
  then show ?thesis
    using assms by (simp add: ZMQ_TX_MAX_BUFFER_SIZE_def word_le_nat_alt)
qed

lemma Send_filling:
  assumes f: "filling z n" and n: "n < 63" and m: "PktLen m = 100"
  shows "\<exists>z'. Send m z = Inr z' \<and> filling z' (Suc n) \<and> tx_wire z' = tx_wire z
           \<and> vec z' = vec z @ [as_contiguous m]"
proof -
  have c: "list_all IsContiguous (vec z)" using f by (simp add: filling_def)
  have t: "\<not> ZMQ_TX_MAX_BUFFER_SIZE \<le> (of_nat (100 * n + 100) :: 32 word)"
    using n by (intro of_nat_small_not_trigger) simp
  show ?thesis
    using f n m t
    by (simp add: Send_contig [OF c] Let_def filling_def ZMQ_TX_PKT_BURST_SIZE_def)
qed

lemma Send_filling_last:
  assumes f: "filling z 63" and m: "PktLen m = 100"
  shows "\<exists>z'. Send m z = Inr z' \<and> filling z' 0
           \<and> tx_wire z' = tx_wire z @ [wire_message (vec z @ [as_contiguous m])]"
proof -
  have c: "list_all IsContiguous (vec z)" using f by (simp add: filling_def)
  have t: "\<not> ZMQ_TX_MAX_BUFFER_SIZE \<le> (of_nat (100 * 63 + 100) :: 32 word)"
    by (intro of_nat_small_not_trigger) simp
  show ?thesis
    using f m t
    by (simp add: Send_contig [OF c] Let_def filling_def ZMQ_TX_PKT_BURST_SIZE_def flushed_def)
qed

lemma sends_filling:
  assumes "filling z n" "n + length ms \<le> 63" "\<forall>m\<in>set ms. PktLen m = 100"
  shows "\<exists>z'. tx_ops (map OpSend ms) z = Inr z' \<and> filling z' (n + length ms)
           \<and> tx_wire z' = tx_wire z \<and> vec z' = vec z @ map as_contiguous ms"
  using assms
proof (induction ms arbitrary: z n)
  case Nil
  then show ?case by simp
next
  case (Cons m ms)
  have n: "n < 63" using Cons.prems(2) by simp
  have p: "PktLen m = 100" using Cons.prems(3) by simp
  obtain z1 where s: "Send m z = Inr z1" and f1: "filling z1 (Suc n)"
    and w1: "tx_wire z1 = tx_wire z" and v1: "vec z1 = vec z @ [as_contiguous m]"
    using Send_filling [OF Cons.prems(1) n p] by blast
  have l: "Suc n + length ms \<le> 63" using Cons.prems(2) by simp
  have a: "\<forall>m\<in>set ms. PktLen m = 100" using Cons.prems(3) by simp
  show ?case
    using Cons.IH [OF f1 l a] s w1 v1 by simp
qed

lemma PktLen_100: "length (concat (segs m)) = 100 \<Longrightarrow> PktLen m = 100"
  by (simp add: PktLen_def)

lemma wire_message_header:
  "take 4 (wire_message ms) = PutUint32 (push_bit 16 0xBEEF + of_nat (length ms))"
  by (simp add: wire_message_def)

lemma sends_65:
  assumes e: "vec z = []" and s: "txVecSize z = 0" and l: "length ms = 65"
    and a: "\<forall>m\<in>set ms. length (concat (segs m)) = 100"
  shows "\<exists>z65. tx_ops (map OpSend ms) z = Inr z65
           \<and> tx_wire z65 = tx_wire z @ [wire_message (map as_contiguous (take 64 ms))]
           \<and> vec z65 = [as_contiguous (ms ! 64)]
           \<and> list_all IsContiguous (vec z65)"
proof -
  have p: "\<forall>m\<in>set ms. PktLen m = 100" using a PktLen_100 by blast
  have f0: "filling z 0" using e s by (simp add: filling_def)
  have split: "ms = take 63 ms @ [ms ! 63, ms ! 64]"
  proof -
    have "ms = take 63 ms @ drop 63 ms" by simp
    moreover have "drop 63 ms = ms ! 63 # drop 64 ms"
      using l Cons_nth_drop_Suc [of 63 ms] by simp
    moreover have "drop 64 ms = ms ! 64 # drop 65 ms"
      using l Cons_nth_drop_Suc [of 64 ms] by simp
    moreover have "drop 65 ms = []" using l by simp
    ultimately show ?thesis by simp
  qed
  have p63: "\<forall>m\<in>set (take 63 ms). PktLen m = 100"
    using p by (meson in_set_takeD)
  have l63: "0 + length (take 63 ms) \<le> 63" by simp
  obtain z1 where r1: "tx_ops (map OpSend (take 63 ms)) z = Inr z1"
    and f1: "filling z1 (0 + length (take 63 ms))" and w1: "tx_wire z1 = tx_wire z"
    and v1: "vec z1 = vec z @ map as_contiguous (take 63 ms)"
    using sends_filling [OF f0 l63 p63] by blast
  have f1': "filling z1 63" using f1 l by simp
  have m63: "PktLen (ms ! 63) = 100" and m64: "PktLen (ms ! 64) = 100"
    using p l by simp_all
  obtain z2 where r2: "Send (ms ! 63) z1 = Inr z2" and f2: "filling z2 0"
    and w2: "tx_wire z2 = tx_wire z1 @ [wire_message (vec z1 @ [as_contiguous (ms ! 63)])]"
    using Send_filling_last [OF f1' m63] by blast
  obtain z3 where r3: "Send (ms ! 64) z2 = Inr z3" and f3: "filling z3 (Suc 0)"
    and w3: "tx_wire z3 = tx_wire z2" and v3: "vec z3 = vec z2 @ [as_contiguous (ms ! 64)]"
    using Send_filling [OF f2 _ m64] by auto
  have t64: "take 64 ms = take 63 ms @ [ms ! 63]"
    using l by (simp add: take_Suc_conv_app_nth [symmetric])
  have run: "tx_ops (map OpSend ms) z = Inr z3"
    by (subst split) (simp add: tx_ops_append r1 r2 r3)
  have "tx_wire z3 = tx_wire z @ [wire_message (map as_contiguous (take 64 ms))]"
    using w3 w2 w1 v1 e t64 by simp
  moreover have "vec z3 = [as_contiguous (ms ! 64)]"
    using v3 f2 by (simp add: filling_def)
  moreover have "list_all IsContiguous (vec z3)"
    using f3 by (simp add: filling_def)
  ultimately show ?thesis using run by blast
qed

lemma header_64: "PutUint32 (push_bit 16 0xBEEF + of_nat 64) = [0xBE, 0xEF, 0x00, 0x40]"
  by (simp add: PutUint32_def)

lemma header_1: "PutUint32 (push_bit 16 0xBEEF + of_nat (Suc 0)) = [0xBE, 0xEF, 0x00, 0x01]"
  by (simp add: PutUint32_def)

text \<open>
  Claim C8, as stated, fails in its last part: sending 65 frames of 100 bytes produces one
  wire message, not two. The flush at the 64th frame sends the first 64; the 65th frame
  stays in the pending batch.
\<close>

theorem sixty_five_frames_one_message_counterexample:
  "map_option length
     (sent_messages (tx_ops (map OpSend (replicate 65 frame100)) (Create 4510 False ()))) = Some 1
   \<and> pending_frames (tx_ops (map OpSend (replicate 65 frame100)) (Create 4510 False ()))
       = Some [frame100]"
proof -
  have e: "vec (Create 4510 False ()) = []" and s: "txVecSize (Create 4510 False ()) = 0"
    and w: "tx_wire (Create 4510 False ()) = []"
    by (simp_all add: Create_def)
  have l: "length (replicate 65 frame100) = 65" by simp
  have a: "\<forall>m\<in>set (replicate 65 frame100). length (concat (segs m)) = 100"
    by (simp add: frame100_def)
  have c: "as_contiguous frame100 = frame100"
    by (simp add: as_contiguous_def IsContiguous_def frame100_def)
  obtain z65 where "tx_ops (map OpSend (replicate 65 frame100)) (Create 4510 False ()) = Inr z65"
    and "tx_wire z65 = tx_wire (Create 4510 False ())
           @ [wire_message (map as_contiguous (take 64 (replicate 65 frame100)))]"
    and "vec z65 = [as_contiguous (replicate 65 frame100 ! 64)]"
    using sends_65 [OF e s l a] by blast
  then show ?thesis
    using w c by (simp add: sent_messages_def pending_frames_def)
qed

text \<open>
  Claim C8, amended. With a batch of contiguous frames pending, \<open>Send\<close> flushes the
  pending batch before it appends a frame whose payload would bring the buffered payload
  size to 32 KiB, and flushes the batch, new frame included, when the batch reaches 64
  frames; otherwise it only appends. In particular, sending 65 frames of 100 bytes each
  to an empty batch triggers exactly one flush, right after the 64th frame is appended and
  so before the 65th is: it produces one wire message, whose batch header carries the
  packet count 64, and leaves the 65th frame pending; the next \<open>FlushTx\<close> produces the
  second wire message, with packet count 1.
\<close>

theorem batching_ceilings:
  assumes "list_all IsContiguous (vec z)"
  shows
  "(ZMQ_TX_MAX_BUFFER_SIZE \<le> txVecSize z + PktLen m \<and> vec z \<noteq> [] \<longrightarrow>
      (\<exists>z'. Send m z = Inr z' \<and> tx_wire z' = tx_wire z @ [wire_message (vec z)]
            \<and> vec z' = [as_contiguous m]))
   \<and> (\<not> ZMQ_TX_MAX_BUFFER_SIZE \<le> txVecSize z + PktLen m \<and> length (vec z) = 63 \<longrightarrow>
      (\<exists>z'. Send m z = Inr z'
            \<and> tx_wire z' = tx_wire z @ [wire_message (vec z @ [as_contiguous m])]
            \<and> vec z' = []))
   \<and> (\<not> ZMQ_TX_MAX_BUFFER_SIZE \<le> txVecSize z + PktLen m \<and> length (vec z) \<noteq> 63 \<longrightarrow>
      (\<exists>z'. Send m z = Inr z' \<and> tx_wire z' = tx_wire z \<and> vec z' = vec z @ [as_contiguous m]))
   \<and> (\<forall>ms. vec z = [] \<and> txVecSize z = 0 \<and> length ms = 65
          \<and> (\<forall>m\<in>set ms. length (concat (segs m)) = 100) \<longrightarrow>
      (\<exists>z65 z66.
          tx_ops (map OpSend ms) z = Inr z65
          \<and> tx_wire z65 = tx_wire z @ [wire_message (map as_contiguous (take 64 ms))]
          \<and> take 4 (wire_message (map as_contiguous (take 64 ms))) = [0xBE, 0xEF, 0x00, 0x40]
          \<and> vec z65 = [as_contiguous (ms ! 64)]
          \<and> FlushTx z65 = Inr z66
          \<and> tx_wire z66 = tx_wire z65 @ [wire_message [as_contiguous (ms ! 64)]]
          \<and> take 4 (wire_message [as_contiguous (ms ! 64)]) = [0xBE, 0xEF, 0x00, 0x01]
          \<and> vec z66 = []))"
proof (intro conjI impI allI)
  assume "ZMQ_TX_MAX_BUFFER_SIZE \<le> txVecSize z + PktLen m \<and> vec z \<noteq> []"
  then show "\<exists>z'. Send m z = Inr z' \<and> tx_wire z' = tx_wire z @ [wire_message (vec z)]
            \<and> vec z' = [as_contiguous m]"
    by (simp add: Send_contig [OF assms] Let_def flushed_def ZMQ_TX_PKT_BURST_SIZE_def)
next
  assume "\<not> ZMQ_TX_MAX_BUFFER_SIZE \<le> txVecSize z + PktLen m \<and> length (vec z) = 63"
  then show "\<exists>z'. Send m z = Inr z'
            \<and> tx_wire z' = tx_wire z @ [wire_message (vec z @ [as_contiguous m])]
            \<and> vec z' = []"
    by (simp add: Send_contig [OF assms] Let_def flushed_def ZMQ_TX_PKT_BURST_SIZE_def)
next
  assume "\<not> ZMQ_TX_MAX_BUFFER_SIZE \<le> txVecSize z + PktLen m \<and> length (vec z) \<noteq> 63"
  then show "\<exists>z'. Send m z = Inr z' \<and> tx_wire z' = tx_wire z
            \<and> vec z' = vec z @ [as_contiguous m]"
    by (simp add: Send_contig [OF assms] Let_def ZMQ_TX_PKT_BURST_SIZE_def)
next
  fix ms :: "Mbuf list"
  assume a: "vec z = [] \<and> txVecSize z = 0 \<and> length ms = 65
          \<and> (\<forall>m\<in>set ms. length (concat (segs m)) = 100)"
  then have e: "vec z = []" and s: "txVecSize z = 0" and l: "length ms = 65"
    and b: "\<forall>m\<in>set ms. length (concat (segs m)) = 100" by simp_all
  obtain z65 where r: "tx_ops (map OpSend ms) z = Inr z65"
    and w: "tx_wire z65 = tx_wire z @ [wire_message (map as_contiguous (take 64 ms))]"
    and v: "vec z65 = [as_contiguous (ms ! 64)]" and c: "list_all IsContiguous (vec z65)"
    using sends_65 [OF e s l b] by blast
  have f: "FlushTx z65 = Inr (flushed z65)" by (rule FlushTx_contig [OF c])
  have w2: "tx_wire (flushed z65) = tx_wire z65 @ [wire_message [as_contiguous (ms ! 64)]]"
    using v by (simp add: flushed_def)
  have h64: "take 4 (wire_message (map as_contiguous (take 64 ms))) = [0xBE, 0xEF, 0x00, 0x40]"
    using l header_64 by (simp add: wire_message_header)
  have h1: "take 4 (wire_message [as_contiguous (ms ! 64)]) = [0xBE, 0xEF, 0x00, 0x01]"
    using header_1 by (simp add: wire_message_header)
  show "\<exists>z65 z66.
          tx_ops (map OpSend ms) z = Inr z65
          \<and> tx_wire z65 = tx_wire z @ [wire_message (map as_contiguous (take 64 ms))]
          \<and> take 4 (wire_message (map as_contiguous (take 64 ms))) = [0xBE, 0xEF, 0x00, 0x40]
          \<and> vec z65 = [as_contiguous (ms ! 64)]
          \<and> FlushTx z65 = Inr z66
          \<and> tx_wire z66 = tx_wire z65 @ [wire_message [as_contiguous (ms ! 64)]]
          \<and> take 4 (wire_message [as_contiguous (ms ! 64)]) = [0xBE, 0xEF, 0x00, 0x01]
          \<and> vec z66 = []"
    using r w h64 v f w2 h1 by (intro exI [of _ z65] exI [of _ "flushed z65"]) simp
qed

theorem batching_ceilings_witness:
  "(\<exists>z'. Send frame_big batch_one = Inr z' \<and> tx_wire z' = [wire_message [frame100]]
          \<and> vec z' = [frame_big])
   \<and> (\<exists>z'. Send frame100 batch_63 = Inr z' \<and> tx_wire z' = [wire_message (replicate 64 frame100)]
          \<and> vec z' = [])
   \<and> (\<exists>z'. Send frame100 batch_one = Inr z' \<and> tx_wire z' = [] \<and> vec z' = [frame100, frame100])
   \<and> (\<exists>z65 z66.
          tx_ops (map OpSend (replicate 65 frame100)) (Create 4510 False ()) = Inr z65
          \<and> tx_wire z65 = [wire_message (replicate 64 frame100)]
          \<and> take 4 (wire_message (replicate 64 frame100)) = [0xBE, 0xEF, 0x00, 0x40]
          \<and> vec z65 = [frame100]
          \<and> FlushTx z65 = Inr z66
          \<and> tx_wire z66 = [wire_message (replicate 64 frame100), wire_message [frame100]]
          \<and> take 4 (wire_message [frame100]) = [0xBE, 0xEF, 0x00, 0x01]
          \<and> vec z66 = [])"
proof -
  have a: "as_contiguous frame100 = frame100" "as_contiguous frame_big = frame_big"
    by (simp_all add: as_contiguous_def IsContiguous_def frame100_def frame_big_def)
  have c1: "list_all IsContiguous (vec batch_one)"
    by (simp add: batch_one_def IsContiguous_def frame100_def)
  have c63: "list_all IsContiguous (vec batch_63)"
    by (simp add: batch_63_def IsContiguous_def frame100_def list_all_iff)
  have c0: "list_all IsContiguous (vec (Create 4510 False ()))"
    by (simp add: Create_def)
  have p: "PktLen frame100 = 100" "PktLen frame_big = 32700"
    by (simp_all add: PktLen_def frame100_def frame_big_def)
  have h1: "ZMQ_TX_MAX_BUFFER_SIZE \<le> txVecSize batch_one + PktLen frame_big \<and> vec batch_one \<noteq> []"
    by (simp add: p batch_one_def ZMQ_TX_MAX_BUFFER_SIZE_def)
  have h2: "\<not> ZMQ_TX_MAX_BUFFER_SIZE \<le> txVecSize batch_63 + PktLen frame100
            \<and> length (vec batch_63) = 63"
    by (simp add: p batch_63_def ZMQ_TX_MAX_BUFFER_SIZE_def)
  have h3: "\<not> ZMQ_TX_MAX_BUFFER_SIZE \<le> txVecSize batch_one + PktLen frame100
            \<and> length (vec batch_one) \<noteq> 63"
    by (simp add: p batch_one_def ZMQ_TX_MAX_BUFFER_SIZE_def)
  have h4: "vec (Create 4510 False ()) = [] \<and> txVecSize (Create 4510 False ()) = 0
            \<and> length (replicate 65 frame100) = 65
            \<and> (\<forall>m\<in>set (replicate 65 frame100). length (concat (segs m)) = 100)"
    by (simp add: Create_def frame100_def)
  have w: "tx_wire batch_one = []" "tx_wire batch_63 = []" "tx_wire (Create 4510 False ()) = []"
    "vec batch_one = [frame100]" "vec batch_63 = replicate 63 frame100"
    by (simp_all add: batch_one_def batch_63_def Create_def)
  have r: "replicate 63 frame100 @ [frame100] = replicate 64 frame100"
    using replicate_add [of 63 1 frame100] by simp
  have g1: "\<exists>z'. Send frame_big batch_one = Inr z' \<and> tx_wire z' = [wire_message [frame100]]
          \<and> vec z' = [frame_big]"
    using batching_ceilings [OF c1, of frame_big] h1 a w by simp
  have g2: "\<exists>z'. Send frame100 batch_63 = Inr z'
          \<and> tx_wire z' = [wire_message (replicate 64 frame100)] \<and> vec z' = []"
    using batching_ceilings [OF c63, of frame100] h2 a w r by simp
  have g3: "\<exists>z'. Send frame100 batch_one = Inr z' \<and> tx_wire z' = []
          \<and> vec z' = [frame100, frame100]"
    using batching_ceilings [OF c1, of frame100] h3 a w by simp
  have "\<exists>z65 z66.
          tx_ops (map OpSend (replicate 65 frame100)) (Create 4510 False ()) = Inr z65
          \<and> tx_wire z65 = tx_wire (Create 4510 False ())
                @ [wire_message (map as_contiguous (take 64 (replicate 65 frame100)))]
          \<and> take 4 (wire_message (map as_contiguous (take 64 (replicate 65 frame100))))
                = [0xBE, 0xEF, 0x00, 0x40]
          \<and> vec z65 = [as_contiguous (replicate 65 frame100 ! 64)]
          \<and> FlushTx z65 = Inr z66
          \<and> tx_wire z66 = tx_wire z65 @ [wire_message [as_contiguous (replicate 65 frame100 ! 64)]]
          \<and> take 4 (wire_message [as_contiguous (replicate 65 frame100 ! 64)])
                = [0xBE, 0xEF, 0x00, 0x01]
          \<and> vec z66 = []"
    using batching_ceilings [OF c0, of frame100] h4 by blast
  then have g4: "\<exists>z65 z66.
          tx_ops (map OpSend (replicate 65 frame100)) (Create 4510 False ()) = Inr z65
          \<and> tx_wire z65 = [wire_message (replicate 64 frame100)]
          \<and> take 4 (wire_message (replicate 64 frame100)) = [0xBE, 0xEF, 0x00, 0x40]
          \<and> vec z65 = [frame100]
          \<and> FlushTx z65 = Inr z66
          \<and> tx_wire z66 = [wire_message (replicate 64 frame100), wire_message [frame100]]
          \<and> take 4 (wire_message [frame100]) = [0xBE, 0xEF, 0x00, 0x01]
          \<and> vec z66 = []"
    using a w by (simp, metis append_Cons append_Nil)
  show ?thesis using g1 g2 g3 g4 by blast
qed

section \<open>Properties of the receiving side\<close>

subsection \<open>The 16-bit offsets while they hold the position\<close>






subsection \<open>The packet loop follows the specification's parsing rule\<close>



lemma OnRx_fields [simp]:
  "proxyMode (OnRx m z) = proxyMode z"
  "RxParseErr (stats (OnRx m z)) = RxParseErr (stats z)"
  "RxBatch (stats (OnRx m z)) = RxBatch (stats z)"
  "tctx_rx (OnRx m z) = (if proxyMode z then tctx_rx z else tctx_rx z @ [m])"
  "cb_rx (OnRx m z) = (if proxyMode z then cb_rx z @ [m] else cb_rx z)"
  by (simp_all add: OnRx_def Let_def)



subsection \<open>The rewrite path leaves the receive side alone\<close>

lemma rx_same_refl [simp]: "rx_same z z"
  by (simp add: rx_same_def)












subsection \<open>Example messages\<close>

lemma long1: "rxLoop env_plain msg_long_length (Suc 0) 4 z = Some (Inl SliceBounds)"
  by (simp add: msg_long_length_def Uint32_def Let_def slice_def)

lemma long_length_panics:
  "OnRxStream env_plain msg_long_length z = Some (Inl SliceBounds)"
proof -
  have d: "unat (Uint32 (take 4 msg_long_length) AND 0xffff) = Suc 0"
    by (simp add: msg_long_length_def Uint32_def)
  have l: "\<not> (of_nat (length msg_long_length) :: 32 word) < 4"
    by (simp add: msg_long_length_def)
  have s: "slice msg_long_length 0 4 = Inr (take 4 msg_long_length)"
    by (simp add: msg_long_length_def slice_def)
  have m: "drop_bit 16 (Uint32 (take 4 msg_long_length) AND 0xffff0000) = ZMQ_PACKET_HEADER_MAGIC"
    by (simp add: msg_long_length_def Uint32_def ZMQ_PACKET_HEADER_MAGIC_def)
  show ?thesis
    unfolding OnRxStream_def Let_def
    by (simp only: l s m d long1 if_False sum.case simp_thms)
qed




subsection \<open>Validation failures\<close>






end
